theory Spec2Isabelle
  imports Complex_Main
begin

section \<open>FlexiMart ETL pipeline: normalizer\<close>

text \<open>
  A shallow embedding of \<^verbatim>\<open>part1-database-etl/etl_pipeline.py\<close>.

  Conventions of the embedding.
  \<^item> A cell of a DataFrame read by \<^verbatim>\<open>pd.read_csv\<close> is a \<open>string option\<close>:
    \<open>None\<close> is a missing value (\<^verbatim>\<open>pd.isna\<close> holds), \<open>Some s\<close> is a present value
    whose \<^verbatim>\<open>str()\<close> is \<open>s\<close>. The cleaning utilities only ever look at
    \<^verbatim>\<open>pd.isna(v)\<close> and \<^verbatim>\<open>str(v)\<close>.
  \<^item> Characters are bytes; \<^verbatim>\<open>str.isdigit\<close>, \<^verbatim>\<open>str.lower\<close>, \<^verbatim>\<open>str.strip\<close> and the
    regular expression classes \<^verbatim>\<open>\d\<close>, \<^verbatim>\<open>\s\<close> are modelled on ASCII.
  \<^item> Python floats are modelled by exact reals, Python ints by \<open>int\<close>.
  \<^item> Library calls whose result the source merely passes on (the numeric parser of
    \<^verbatim>\<open>pd.to_numeric\<close>, \<^verbatim>\<open>datetime.strptime\<close>, \<^verbatim>\<open>pd.to_datetime\<close>,
    \<^verbatim>\<open>uuid.uuid4\<close>, the iteration order of a Python \<^verbatim>\<open>set\<close>, the value checks of
    the column types of the store) are fields of an environment record.
\<close>

type_synonym cell = "string option"

text \<open>
  The rows of the four tables of \<^verbatim>\<open>DDL_STATEMENTS\<close>. A column declared NOT NULL has
  a plain type, a nullable column an option type.
\<close>

record customers_rec =
  c_customer_id :: int
  c_first_name :: string
  c_last_name :: string
  c_email :: string
  c_phone :: "string option"
  c_city :: "string option"
  c_registration_date :: "string option"

record products_rec =
  p_product_id :: int
  p_product_name :: string
  p_category :: string
  p_price :: real
  p_stock_quantity :: int

record orders_rec =
  o_order_id :: int
  o_customer_id :: int
  o_order_date :: string
  o_total_amount :: real
  o_status :: "string option"

record order_items_rec =
  i_order_item_id :: int
  i_order_id :: int
  i_product_id :: int
  i_quantity :: int
  i_unit_price :: real
  i_subtotal :: real

record env =
  to_numeric :: "string \<Rightarrow> real option"
    \<comment> \<open>\<^verbatim>\<open>pd.to_numeric(v, errors="coerce")\<close> on one present value; \<open>None\<close> is NaN\<close>
  strptime :: "string \<Rightarrow> string \<Rightarrow> string option"
    \<comment> \<open>\<^verbatim>\<open>datetime.strptime(s, fmt).strftime("%Y-%m-%d")\<close>; \<open>None\<close> when it raises\<close>
  to_datetime :: "string \<Rightarrow> bool option \<Rightarrow> string option"
    \<comment> \<open>\<^verbatim>\<open>pd.to_datetime(s, dayfirst=hint, errors="coerce")\<close> rendered as ISO;
        \<open>None\<close> when the result is NaT or the call raises\<close>
  uuid4_hex :: "nat \<Rightarrow> string"
    \<comment> \<open>\<^verbatim>\<open>uuid.uuid4().hex\<close> of the n-th draw of the process\<close>
  set_hash :: "string \<Rightarrow> nat"
    \<comment> \<open>decides the iteration order of a Python \<^verbatim>\<open>set\<close> of strings\<close>
  customers_ok :: "customers_rec \<Rightarrow> bool"
  products_ok :: "products_rec \<Rightarrow> bool"
  orders_ok :: "orders_rec \<Rightarrow> bool"
  order_items_ok :: "order_items_rec \<Rightarrow> bool"
    \<comment> \<open>the values of a row fit the types of its columns (VARCHAR(n), DATE, NUMERIC(10,2),
        BIGINT, INT); the store raises a data error otherwise\<close>

definition isdigit :: "char \<Rightarrow> bool" where
  "isdigit c = (c \<in> set ''0123456789'')"

definition isspace :: "char \<Rightarrow> bool" where
  "isspace c = (c \<in> set [CHR 0x09, CHR 0x0A, CHR 0x0B, CHR 0x0C, CHR 0x0D,
                            CHR 0x1C, CHR 0x1D, CHR 0x1E, CHR 0x1F, CHR 0x20])"

definition lower_char :: "char \<Rightarrow> char" where
  "lower_char c =
     (case map_of (zip ''ABCDEFGHIJKLMNOPQRSTUVWXYZ'' ''abcdefghijklmnopqrstuvwxyz'') c of
        None \<Rightarrow> c | Some l \<Rightarrow> l)"

definition upper_char :: "char \<Rightarrow> char" where
  "upper_char c =
     (case map_of (zip ''abcdefghijklmnopqrstuvwxyz'' ''ABCDEFGHIJKLMNOPQRSTUVWXYZ'') c of
        None \<Rightarrow> c | Some u \<Rightarrow> u)"

definition lower :: "string \<Rightarrow> string" where
  "lower s = map lower_char s"

text \<open>\<^verbatim>\<open>str.strip()\<close>: whitespace is removed at both ends.\<close>

definition strip :: "string \<Rightarrow> string" where
  "strip s = rev (dropWhile isspace (rev (dropWhile isspace s)))"

text \<open>\<^verbatim>\<open>str.capitalize()\<close>: first character upper case, the rest lower case.\<close>

definition capitalize :: "string \<Rightarrow> string" where
  "capitalize s = (case s of [] \<Rightarrow> [] | c # cs \<Rightarrow> upper_char c # lower cs)"

definition digit_val :: "char \<Rightarrow> int" where
  "digit_val c =
     (case map_of (zip ''0123456789'' [0, 1, 2, 3, 4, 5, 6, 7, 8, 9]) c of
        None \<Rightarrow> 0 | Some d \<Rightarrow> d)"

text \<open>\<^verbatim>\<open>int(digits)\<close> on a non-empty string of ASCII digits.\<close>

definition int_of_digits :: "string \<Rightarrow> int" where
  "int_of_digits ds = fold (\<lambda>c n. 10 * n + digit_val c) ds 0"

text \<open>\<^verbatim>\<open>clean_phone\<close>: the last ten digits behind the country code, or None.\<close>

definition clean_phone :: "cell \<Rightarrow> string \<Rightarrow> string option" where
  "clean_phone num country_code =
     (case num of
        None \<Rightarrow> None
      | Some s \<Rightarrow>
          (let digits = filter isdigit s
           in if length digits \<ge> 10
              then Some (country_code @ drop (length digits - 10) digits)
              else None))"

text \<open>\<^verbatim>\<open>clean_id\<close>: the integer spelled by the digits of the value; \<open>None\<close> is NaN.\<close>

definition clean_id :: "cell \<Rightarrow> int option" where
  "clean_id val =
     (case val of
        None \<Rightarrow> None
      | Some s \<Rightarrow>
          (let digits = filter isdigit s
           in if digits \<noteq> [] then Some (int_of_digits digits) else None))"

definition clean_category :: "cell \<Rightarrow> string" where
  "clean_category cat =
     (case cat of
        None \<Rightarrow> ''Unknown''
      | Some s \<Rightarrow> capitalize (lower (strip s)))"

subsection \<open>Dates\<close>

text \<open>
  The maximal runs of digits of a string, with an empty token where the string starts or
  ends with a non-digit: \<^verbatim>\<open>re.split(r"\D+", s)\<close>.
\<close>

fun split_nondigits :: "bool \<Rightarrow> string \<Rightarrow> string \<Rightarrow> string list" where
  "split_nondigits sep cur [] = [rev cur]"
| "split_nondigits sep cur (c # cs) =
     (if isdigit c then split_nondigits False (c # cur) cs
      else if sep then split_nondigits True cur cs
      else rev cur # split_nondigits True [] cs)"

definition re_split_nondigits :: "string \<Rightarrow> string list" where
  "re_split_nondigits s = split_nondigits False [] s"

text \<open>
  \<^verbatim>\<open>re.match(r"^\s*(\d{4})\D+(\d{1,2})\D+(\d{1,2})\s*$", s)\<close> on a stripped string:
  exactly three runs of digits, of lengths 4, 1-2 and 1-2, none of them at a border
  with a non-digit.
\<close>

definition year_first_pattern :: "string \<Rightarrow> bool" where
  "year_first_pattern s =
     (case re_split_nondigits s of
        [y, a, b] \<Rightarrow>
          length y = 4 \<and> length a \<in> {1, 2} \<and> length b \<in> {1, 2}
      | _ \<Rightarrow> False)"

text \<open>\<^verbatim>\<open>int(tok)\<close>: raises ValueError on the empty token.\<close>

definition int_token :: "string \<Rightarrow> int option" where
  "int_token tok = (if tok = [] then None else Some (int_of_digits tok))"

definition infer_dayfirst_from_string :: "string \<Rightarrow> bool option" where
  "infer_dayfirst_from_string s0 =
     (let s = strip s0
      in if s = [] then None
         else if year_first_pattern s then None
         else
           (case re_split_nondigits s of
              t0 # t1 # _ \<Rightarrow>
                (case int_token t0 of
                   None \<Rightarrow> None
                 | Some a \<Rightarrow>
                     (case int_token t1 of
                        None \<Rightarrow> None
                      | Some b \<Rightarrow>
                          if a > 12 \<and> b \<le> 12 then Some True
                          else if b > 12 \<and> a \<le> 12 then Some False
                          else None))
            | _ \<Rightarrow> None))"

text \<open>\<^verbatim>\<open>re.match(r"^\d{4}-\d{2}-\d{2}$", s)\<close> on a stripped string.\<close>

definition iso_pattern :: "string \<Rightarrow> bool" where
  "iso_pattern s =
     (case s of
        [y1, y2, y3, y4, d1, m1, m2, d2, t1, t2] \<Rightarrow>
          isdigit y1 \<and> isdigit y2 \<and> isdigit y3 \<and> isdigit y4 \<and> d1 = CHR ''-'' \<and>
          isdigit m1 \<and> isdigit m2 \<and> d2 = CHR ''-'' \<and> isdigit t1 \<and> isdigit t2
      | _ \<Rightarrow> False)"

definition explicit_formats :: "string list" where
  "explicit_formats =
     [''%Y-%m-%d'', ''%Y/%m/%d'', ''%Y.%m.%d'', ''%d/%m/%Y'', ''%d-%m-%Y'',
      ''%d.%m.%Y'', ''%m/%d/%Y'', ''%m-%d-%Y'', ''%m.%d.%Y'']"

text \<open>The loop over the explicit formats: the first format that parses wins.\<close>

fun try_formats :: "env \<Rightarrow> string \<Rightarrow> string list \<Rightarrow> string option" where
  "try_formats e s [] = None"
| "try_formats e s (fmt # fmts) =
     (case strptime e s fmt of
        Some res \<Rightarrow> Some res
      | None \<Rightarrow> try_formats e s fmts)"

definition clean_date :: "env \<Rightarrow> cell \<Rightarrow> string option" where
  "clean_date e d =
     (case d of
        None \<Rightarrow> None
      | Some raw \<Rightarrow>
          (let s = strip raw
           in if s = [] then None
              else if iso_pattern s then Some s
              else
                (case try_formats e s explicit_formats of
                   Some res \<Rightarrow> Some res
                 | None \<Rightarrow> to_datetime e s (infer_dayfirst_from_string s))))"

definition clean_date_series :: "env \<Rightarrow> cell list \<Rightarrow> string option list" where
  "clean_date_series e series = map (clean_date e) series"

subsection \<open>Emails\<close>

definition canonicalize_email :: "cell \<Rightarrow> string option" where
  "canonicalize_email email =
     (case email of
        None \<Rightarrow> None
      | Some raw \<Rightarrow>
          (let s = filter (\<lambda>c. \<not> isspace c) (lower (strip raw))
           in if s \<noteq> [] then Some s else None))"

text \<open>\<^verbatim>\<open>str(int(cid))\<close>: the decimal numeral of an integer.\<close>

fun nat_digits :: "nat \<Rightarrow> string" where
  "nat_digits n =
     (if n < 10 then [''0123456789'' ! n]
      else nat_digits (n div 10) @ [''0123456789'' ! (n mod 10)])"

declare nat_digits.simps [simp del]

definition str_int :: "int \<Rightarrow> string" where
  "str_int i =
     (if i < 0 then CHR ''-'' # nat_digits (nat (- i)) else nat_digits (nat i))"

text \<open>
  \<^verbatim>\<open>synthesize_email\<close>: the placeholder of a row without email, from its cleaned
  customer id when it has one, from a fresh uuid otherwise. The second component is the
  number of uuid draws after the call.
\<close>

definition placeholder_email :: "string \<Rightarrow> string" where
  "placeholder_email suffix = ''unknown+'' @ suffix @ ''@example.com''"

definition synthesize_email :: "env \<Rightarrow> nat \<Rightarrow> int option \<Rightarrow> string \<times> nat" where
  "synthesize_email e n cid =
     (case cid of
        Some i \<Rightarrow> (placeholder_email (str_int i), n)
      | None \<Rightarrow> (placeholder_email (take 8 (uuid4_hex e n)), Suc n))"

section \<open>DataFrames and the transforms\<close>

text \<open>
  A DataFrame is its header and its rows. The rows of an input file carry the required
  columns and, where the source looks at whole rows (\<^verbatim>\<open>drop_duplicates()\<close> without a
  subset), the other columns as a list. Where the header lacks a required column the
  run stops in \<^verbatim>\<open>extract\<close>, before any field is read.
\<close>

record 'r frame =
  columns :: "string list"
  rows :: "'r list"

record customers_csv =
  rc_first_name :: cell
  rc_last_name :: cell
  rc_email :: cell
  rc_phone :: cell
  rc_city :: cell
  rc_registration_date :: cell
  rc_customer_id :: cell

record products_csv =
  rp_product_name :: cell
  rp_category :: cell
  rp_price :: cell
  rp_stock_quantity :: cell
  rp_product_id :: cell  \<comment> \<open>read only when the header has the column\<close>
  rp_extra :: "cell list"

record sales_csv =
  rs_transaction_id :: cell
  rs_transaction_date :: cell
  rs_customer_id :: cell
  rs_product_id :: cell
  rs_quantity :: cell
  rs_unit_price :: cell
  rs_extra :: "cell list"

record input_files =
  customers_file :: "customers_csv frame"
  products_file :: "products_csv frame"
  sales_file :: "sales_csv frame"

text \<open>The rows after the transforms.\<close>

record customers_row =
  fc_customer_id :: "int option"
  fc_first_name :: cell
  fc_last_name :: cell
  fc_email :: string
  fc_phone :: "string option"
  fc_city :: cell
  fc_registration_date :: "string option"

record products_row =
  fp_product_id :: "int option"
  fp_product_name :: cell
  fp_category :: string
  fp_price :: real
  fp_stock_quantity :: int

text \<open>
  A sales line. \<open>fs_customer_id\<close> is the customer id of the file until identity resolution
  and the customer id of the store after it, as the source overwrites the column.
\<close>

record sales_row =
  fs_transaction_id :: "int option"
  fs_transaction_date :: "string option"
  fs_customer_id :: int
  fs_product_id :: int
  fs_quantity :: int
  fs_unit_price :: real
  fs_subtotal :: real
  fs_email :: "string option"

datatype error =
    ValueError string
  | KeyError string
  | DataError string
  | NotNullViolation string
  | UniqueViolation string
  | ForeignKeyViolation string

definition country_code :: string where
  "country_code = ''+91-''"

subsection \<open>Extract\<close>

definition assert_required_columns :: "string list \<Rightarrow> string list \<Rightarrow> string \<Rightarrow> error option" where
  "assert_required_columns cols required df_name =
     (let missing = filter (\<lambda>c. c \<notin> set cols) required
      in if missing \<noteq> [] then Some (ValueError (df_name @ '': missing required columns''))
         else None)"

definition customers_required :: "string list" where
  "customers_required =
     [''first_name'', ''last_name'', ''email'', ''phone'', ''city'', ''registration_date'',
      ''customer_id'']"

definition products_required :: "string list" where
  "products_required = [''product_name'', ''category'', ''price'', ''stock_quantity'']"

definition sales_required :: "string list" where
  "sales_required =
     [''transaction_id'', ''transaction_date'', ''customer_id'', ''product_id'', ''quantity'',
      ''unit_price'']"

definition extract_csv :: "input_files \<Rightarrow> error option" where
  "extract_csv files =
     (case assert_required_columns (columns (customers_file files)) customers_required
             ''customers_raw.csv'' of
        Some err \<Rightarrow> Some err
      | None \<Rightarrow>
          (case assert_required_columns (columns (products_file files)) products_required
                  ''products_raw.csv'' of
             Some err \<Rightarrow> Some err
           | None \<Rightarrow>
               assert_required_columns (columns (sales_file files)) sales_required
                 ''sales_raw.csv''))"

subsection \<open>Duplicates\<close>

text \<open>
  \<^verbatim>\<open>drop_duplicates(keep="first")\<close>: a row goes when an earlier row has the same key.
  Missing values compare equal, as in pandas.
\<close>

fun drop_seen :: "('a \<Rightarrow> 'k) \<Rightarrow> 'k list \<Rightarrow> 'a list \<Rightarrow> 'a list" where
  "drop_seen key seen [] = []"
| "drop_seen key seen (x # xs) =
     (if key x \<in> set seen then drop_seen key seen xs
      else x # drop_seen key (key x # seen) xs)"

definition drop_duplicates :: "('a \<Rightarrow> 'k) \<Rightarrow> 'a list \<Rightarrow> 'a list" where
  "drop_duplicates key xs = drop_seen key [] xs"

subsection \<open>Customers\<close>

text \<open>
  The column-wise steps of \<^verbatim>\<open>transform_customers\<close> on one row: ids, canonical email,
  placeholder for a missing email, phone and date. The counter is the number of uuid
  draws so far.
\<close>

definition clean_customer :: "env \<Rightarrow> nat \<Rightarrow> customers_csv \<Rightarrow> customers_row \<times> nat" where
  "clean_customer e n r =
     (let cid = clean_id (rc_customer_id r);
          (em, n') = (case canonicalize_email (rc_email r) of
                        Some a \<Rightarrow> (a, n)
                      | None \<Rightarrow> synthesize_email e n cid)
      in (\<lparr>fc_customer_id = cid,
           fc_first_name = rc_first_name r,
           fc_last_name = rc_last_name r,
           fc_email = em,
           fc_phone = clean_phone (rc_phone r) country_code,
           fc_city = rc_city r,
           fc_registration_date = clean_date e (rc_registration_date r)\<rparr>, n'))"

fun clean_customers :: "env \<Rightarrow> nat \<Rightarrow> customers_csv list \<Rightarrow> customers_row list \<times> nat" where
  "clean_customers e n [] = ([], n)"
| "clean_customers e n (r # rs) =
     (let (c, n1) = clean_customer e n r;
          (cs, n2) = clean_customers e n1 rs
      in (c # cs, n2))"

definition transform_customers :: "env \<Rightarrow> nat \<Rightarrow> customers_csv list \<Rightarrow> customers_row list \<times> nat" where
  "transform_customers e n raw =
     (let (cs, n') = clean_customers e n raw
      in (drop_duplicates fc_email cs, n'))"

subsection \<open>Products\<close>

text \<open>\<^verbatim>\<open>pd.to_numeric(col, errors="coerce").fillna(d)\<close> on one cell.\<close>

definition numeric_or :: "env \<Rightarrow> real \<Rightarrow> cell \<Rightarrow> real" where
  "numeric_or e d c =
     (case c of
        None \<Rightarrow> d
      | Some s \<Rightarrow> (case to_numeric e s of None \<Rightarrow> d | Some x \<Rightarrow> x))"

text \<open>\<^verbatim>\<open>.astype(int)\<close> on a float: truncation towards zero.\<close>

definition astype_int :: "real \<Rightarrow> int" where
  "astype_int x = (if x \<ge> 0 then \<lfloor>x\<rfloor> else \<lceil>x\<rceil>)"

definition has_product_id :: "string list \<Rightarrow> bool" where
  "has_product_id cols = (''product_id'' \<in> set cols)"

text \<open>
  The product row as \<^verbatim>\<open>drop_duplicates()\<close> sees it: price, stock and category are
  converted, the product id is still the raw cell.
\<close>

definition products_dup_key ::
  "env \<Rightarrow> bool \<Rightarrow> products_csv \<Rightarrow> cell \<times> string \<times> real \<times> int \<times> cell \<times> cell list" where
  "products_dup_key e has_pid r =
     (rp_product_name r, clean_category (rp_category r), numeric_or e 0 (rp_price r),
      astype_int (numeric_or e 0 (rp_stock_quantity r)),
      (if has_pid then rp_product_id r else None), rp_extra r)"

definition clean_product :: "env \<Rightarrow> bool \<Rightarrow> products_csv \<Rightarrow> products_row" where
  "clean_product e has_pid r =
     \<lparr>fp_product_id = (if has_pid then clean_id (rp_product_id r) else None),
      fp_product_name = rp_product_name r,
      fp_category = clean_category (rp_category r),
      fp_price = numeric_or e 0 (rp_price r),
      fp_stock_quantity = astype_int (numeric_or e 0 (rp_stock_quantity r))\<rparr>"

definition transform_products :: "env \<Rightarrow> products_csv frame \<Rightarrow> products_row frame" where
  "transform_products e df =
     (let has_pid = has_product_id (columns df)
      in \<lparr>columns = columns df,
          rows = map (clean_product e has_pid)
                   (drop_duplicates (products_dup_key e has_pid) (rows df))\<rparr>)"

subsection \<open>Sales\<close>

text \<open>
  The sales row as \<^verbatim>\<open>dropna\<close> and \<^verbatim>\<open>drop_duplicates()\<close> see it: the three ids are
  cleaned, date, quantity and price are still raw.
\<close>

definition sales_dup_key ::
  "sales_csv \<Rightarrow> int option \<times> string option \<times> int option \<times> int option \<times> cell \<times> cell \<times> cell list" where
  "sales_dup_key r =
     (clean_id (rs_transaction_id r), rs_transaction_date r, clean_id (rs_customer_id r),
      clean_id (rs_product_id r), rs_quantity r, rs_unit_price r, rs_extra r)"

definition dropna_ids :: "sales_csv \<Rightarrow> bool" where
  "dropna_ids r = (clean_id (rs_customer_id r) \<noteq> None \<and> clean_id (rs_product_id r) \<noteq> None)"

text \<open>The typed line of a row that passed \<^verbatim>\<open>dropna\<close>; the email comes with the merge.\<close>

definition clean_sale :: "env \<Rightarrow> sales_csv \<Rightarrow> sales_row list" where
  "clean_sale e r =
     (case (clean_id (rs_customer_id r), clean_id (rs_product_id r)) of
        (Some cid, Some pid) \<Rightarrow>
          (let quantity = astype_int (numeric_or e 0 (rs_quantity r));
               unit_price = numeric_or e 0 (rs_unit_price r)
           in [\<lparr>fs_transaction_id = clean_id (rs_transaction_id r),
                fs_transaction_date = clean_date e (rs_transaction_date r),
                fs_customer_id = cid,
                fs_product_id = pid,
                fs_quantity = quantity,
                fs_unit_price = unit_price,
                fs_subtotal = real_of_int quantity * unit_price,
                fs_email = None\<rparr>])
      | _ \<Rightarrow> [])"

text \<open>
  \<^verbatim>\<open>sales.merge(customer_keys, on="customer_id", how="left")\<close> for one line: one row per
  customer row with the same customer id, in the order of the customers; a line without
  a match stays, with a missing email.
\<close>

definition merge_left :: "customers_row list \<Rightarrow> sales_row \<Rightarrow> sales_row list" where
  "merge_left customers r =
     (let emails = map fc_email
                     (filter (\<lambda>c. fc_customer_id c = Some (fs_customer_id r)) customers)
      in if emails = [] then [r\<lparr>fs_email := None\<rparr>]
         else map (\<lambda>em. r\<lparr>fs_email := canonicalize_email (Some em)\<rparr>) emails)"

definition transform_sales_initial ::
  "env \<Rightarrow> customers_row list \<Rightarrow> sales_csv frame \<Rightarrow> error + sales_row list" where
  "transform_sales_initial e customers df =
     (let kept = filter dropna_ids (rows df);
          uniq = drop_duplicates sales_dup_key kept;
          typed = concat (map (clean_sale e) uniq)
      in if ''email'' \<in> set (columns df) then Inl (KeyError ''email'')
         else Inr (concat (map (merge_left customers) typed)))"

section \<open>The store\<close>

text \<open>
  The store is the four tables and the sequences behind the identity columns that the
  pipeline lets the store fill. The model has the constraints of \<^verbatim>\<open>DDL_STATEMENTS\<close>:
  primary keys, the unique email, NOT NULL, the three foreign keys, the identity defaults
  and the default of \<open>status\<close>. A row is stored with the values it is given. A statement
  returns the error it raises, if any, and the store after it. A sequence is advanced
  by \<^verbatim>\<open>nextval\<close> whether or not the row is stored, and is not rolled back.
\<close>

record store =
  customers :: "customers_rec list"
  products :: "products_rec list"
  orders :: "orders_rec list"
  order_items :: "order_items_rec list"
  customers_seq :: int
  products_seq :: int
  order_items_seq :: int

definition empty_store :: store where
  "empty_store =
     \<lparr>customers = [], products = [], orders = [], order_items = [],
      customers_seq = 0, products_seq = 0, order_items_seq = 0\<rparr>"

text \<open>
  The end of a failed transaction: the tables are those of the last commit, the
  sequences stay where the failed transaction left them.
\<close>

definition rollback :: "store \<Rightarrow> store \<Rightarrow> store" where
  "rollback committed working =
     committed\<lparr>customers_seq := customers_seq working,
               products_seq := products_seq working,
               order_items_seq := order_items_seq working\<rparr>"

text \<open>
  \<^verbatim>\<open>INSERT INTO customers ... ON CONFLICT (email) DO NOTHING\<close> with the id decided:
  a row whose email is present is skipped, a row whose id is present raises.
\<close>

definition put_customer :: "env \<Rightarrow> customers_rec \<Rightarrow> store \<Rightarrow> error option \<times> store" where
  "put_customer e r s =
     (if \<not> customers_ok e r then (Some (DataError ''customers''), s)
      else if c_email r \<in> set (map c_email (customers s)) then (None, s)
      else if c_customer_id r \<in> set (map c_customer_id (customers s))
      then (Some (UniqueViolation ''customers_pkey''), s)
      else (None, s\<lparr>customers := customers s @ [r]\<rparr>))"

type_synonym customer_values =
  "string \<times> string \<times> string \<times> string option \<times> string option \<times> string option"

definition customer_rec :: "int \<Rightarrow> customer_values \<Rightarrow> customers_rec" where
  "customer_rec cid v =
     (case v of (first_name, last_name, email, phone, city, registration_date) \<Rightarrow>
        \<lparr>c_customer_id = cid, c_first_name = first_name, c_last_name = last_name,
         c_email = email, c_phone = phone, c_city = city,
         c_registration_date = registration_date\<rparr>)"

text \<open>\<^verbatim>\<open>sql_with\<close> of \<^verbatim>\<open>upsert_customers\<close>: the id of the file overrides the identity.\<close>

definition sql_customers_with :: "env \<Rightarrow> int \<times> customer_values \<Rightarrow> store \<Rightarrow> error option \<times> store" where
  "sql_customers_with e row s = put_customer e (customer_rec (fst row) (snd row)) s"

text \<open>
  \<^verbatim>\<open>sql_without\<close> of \<^verbatim>\<open>upsert_customers\<close> and the insert of a stub customer: the id is
  the next value of the sequence.
\<close>

definition sql_customers_without :: "env \<Rightarrow> customer_values \<Rightarrow> store \<Rightarrow> error option \<times> store" where
  "sql_customers_without e row s =
     (let cid = customers_seq s + 1
      in put_customer e (customer_rec cid row) (s\<lparr>customers_seq := cid\<rparr>))"

text \<open>\<^verbatim>\<open>sql_with\<close> of \<^verbatim>\<open>load_products\<close>: \<^verbatim>\<open>ON CONFLICT DO NOTHING\<close>.\<close>

definition sql_products_with :: "env \<Rightarrow> products_rec \<Rightarrow> store \<Rightarrow> error option \<times> store" where
  "sql_products_with e r s =
     (if \<not> products_ok e r then (Some (DataError ''products''), s)
      else if p_product_id r \<in> set (map p_product_id (products s)) then (None, s)
      else (None, s\<lparr>products := products s @ [r]\<rparr>))"

text \<open>\<^verbatim>\<open>sql_without\<close> of \<^verbatim>\<open>load_products\<close>: no conflict clause.\<close>

definition sql_products_without ::
  "env \<Rightarrow> string \<times> string \<times> real \<times> int \<Rightarrow> store \<Rightarrow> error option \<times> store" where
  "sql_products_without e row s =
     (case row of (product_name, category, price, stock_quantity) \<Rightarrow>
        (let pid = products_seq s + 1;
             r = \<lparr>p_product_id = pid, p_product_name = product_name, p_category = category,
                  p_price = price, p_stock_quantity = stock_quantity\<rparr>;
             s1 = s\<lparr>products_seq := pid\<rparr>
         in if \<not> products_ok e r then (Some (DataError ''products''), s1)
            else if pid \<in> set (map p_product_id (products s1))
            then (Some (UniqueViolation ''products_pkey''), s1)
            else (None, s1\<lparr>products := products s1 @ [r]\<rparr>)))"

definition status_default :: string where
  "status_default = ''Pending''"

text \<open>
  An insert into \<open>orders\<close> with an explicit order id and
  \<^verbatim>\<open>ON CONFLICT (order_id) DO NOTHING\<close>. The status is \<open>None\<close> when the statement leaves
  the column out, and the store then fills in the default.
\<close>

definition insert_order ::
  "env \<Rightarrow> int \<times> int \<times> string option \<times> real \<Rightarrow> string option \<Rightarrow> store \<Rightarrow> error option \<times> store" where
  "insert_order e row status s =
     (case row of (order_id, customer_id, order_date, total_amount) \<Rightarrow>
        (case order_date of
           None \<Rightarrow> (Some (NotNullViolation ''order_date''), s)
         | Some d \<Rightarrow>
             (let r = \<lparr>o_order_id = order_id, o_customer_id = customer_id, o_order_date = d,
                       o_total_amount = total_amount,
                       o_status = Some (case status of None \<Rightarrow> status_default | Some st \<Rightarrow> st)\<rparr>
              in if \<not> orders_ok e r then (Some (DataError ''orders''), s)
                 else if order_id \<in> set (map o_order_id (orders s)) then (None, s)
                 else if customer_id \<notin> set (map c_customer_id (customers s))
                 then (Some (ForeignKeyViolation ''fk_orders_customer''), s)
                 else (None, s\<lparr>orders := orders s @ [r]\<rparr>))))"

text \<open>\<^verbatim>\<open>sql_orders\<close>: the statement names the status column, the value travels in the row.\<close>

definition sql_orders ::
  "env \<Rightarrow> int \<times> int \<times> string option \<times> real \<times> string \<Rightarrow> store \<Rightarrow> error option \<times> store" where
  "sql_orders e row s =
     (case row of (order_id, customer_id, order_date, total_amount, status) \<Rightarrow>
        insert_order e (order_id, customer_id, order_date, total_amount) (Some status) s)"

text \<open>\<^verbatim>\<open>sql_items\<close>: the item id is the next value of the sequence, no conflict clause.\<close>

definition sql_items ::
  "env \<Rightarrow> int \<times> int \<times> int \<times> real \<times> real \<Rightarrow> store \<Rightarrow> error option \<times> store" where
  "sql_items e row s =
     (case row of (order_id, product_id, quantity, unit_price, subtotal) \<Rightarrow>
        (let iid = order_items_seq s + 1;
             r = \<lparr>i_order_item_id = iid, i_order_id = order_id, i_product_id = product_id,
                  i_quantity = quantity, i_unit_price = unit_price, i_subtotal = subtotal\<rparr>;
             s1 = s\<lparr>order_items_seq := iid\<rparr>
         in if \<not> order_items_ok e r then (Some (DataError ''order_items''), s1)
            else if iid \<in> set (map i_order_item_id (order_items s1))
            then (Some (UniqueViolation ''order_items_pkey''), s1)
            else if order_id \<notin> set (map o_order_id (orders s1))
            then (Some (ForeignKeyViolation ''fk_items_order''), s1)
            else if product_id \<notin> set (map p_product_id (products s1))
            then (Some (ForeignKeyViolation ''fk_items_product''), s1)
            else (None, s1\<lparr>order_items := order_items s1 @ [r]\<rparr>)))"

text \<open>
  \<^verbatim>\<open>execute_batch\<close>: the statement once per row, in order, up to the first error. The page
  size only groups the round trips.
\<close>

fun execute_batch ::
  "('a \<Rightarrow> store \<Rightarrow> error option \<times> store) \<Rightarrow> 'a list \<Rightarrow> store \<Rightarrow> error option \<times> store" where
  "execute_batch stmt [] s = (None, s)"
| "execute_batch stmt (r # rs) s =
     (case stmt r s of
        (Some err, s') \<Rightarrow> (Some err, s')
      | (None, s') \<Rightarrow> execute_batch stmt rs s')"

text \<open>
  \<^verbatim>\<open>conn.commit()\<close> after the statements of a stage, or the exception that leaves the
  stage: the open transaction is then rolled back when the connection is closed.
\<close>

definition commit :: "store \<Rightarrow> error option \<times> store \<Rightarrow> error option \<times> store" where
  "commit committed res =
     (case res of
        (None, working) \<Rightarrow> (None, working)
      | (Some err, working) \<Rightarrow> (Some err, rollback committed working))"

section \<open>The loader\<close>

text \<open>
  A missing value of a text column of a row is the float NaN, which the driver sends as
  the number NaN; the store keeps its text.
\<close>

definition adapt_text :: "cell \<Rightarrow> string" where
  "adapt_text c = (case c of None \<Rightarrow> ''NaN'' | Some t \<Rightarrow> t)"

definition customer_values_of :: "customers_row \<Rightarrow> customer_values" where
  "customer_values_of r =
     (adapt_text (fc_first_name r), adapt_text (fc_last_name r), fc_email r, fc_phone r,
      Some (adapt_text (fc_city r)), fc_registration_date r)"

definition upsert_customers :: "env \<Rightarrow> customers_row list \<Rightarrow> store \<Rightarrow> error option \<times> store" where
  "upsert_customers e df s =
     (let with_id = filter (\<lambda>r. fc_customer_id r \<noteq> None) df;
          without_id = filter (\<lambda>r. fc_customer_id r = None) df;
          rows_with = concat (map (\<lambda>r. case fc_customer_id r of
                                            Some cid \<Rightarrow> [(cid, customer_values_of r)]
                                          | None \<Rightarrow> []) with_id);
          rows_without = map customer_values_of without_id
      in commit s
           (case execute_batch (sql_customers_with e) rows_with s of
              (Some err, w) \<Rightarrow> (Some err, w)
            | (None, w) \<Rightarrow> execute_batch (sql_customers_without e) rows_without w))"

subsection \<open>Identity resolution\<close>

text \<open>
  \<^verbatim>\<open>fetch_customer_id_by_email\<close>: the dictionary of the comprehension; of two rows with
  the same canonical email the later one stays.
\<close>

definition fetch_customer_id_by_email :: "store \<Rightarrow> (string option \<rightharpoonup> int)" where
  "fetch_customer_id_by_email s =
     map_of (rev (map (\<lambda>r. (canonicalize_email (Some (c_email r)), c_customer_id r))
                   (customers s)))"

text \<open>
  The loop over the lines with a missing email: each gets a placeholder email from a
  fresh uuid. The result is the lines, the placeholder emails and the number of draws.
\<close>

fun assign_stub_emails :: "env \<Rightarrow> nat \<Rightarrow> sales_row list \<Rightarrow> sales_row list \<times> string list \<times> nat" where
  "assign_stub_emails e n [] = ([], [], n)"
| "assign_stub_emails e n (r # rs) =
     (case fs_email r of
        None \<Rightarrow>
          (let new_email = placeholder_email (take 8 (uuid4_hex e n));
               (rs', stubs, n') = assign_stub_emails e (Suc n) rs
           in (r\<lparr>fs_email := Some new_email\<rparr> # rs', new_email # stubs, n'))
      | Some em \<Rightarrow>
          (let (rs', stubs, n') = assign_stub_emails e n rs
           in (r # rs', stubs, n')))"

text \<open>The order in which a Python \<^verbatim>\<open>set\<close> of strings is iterated.\<close>

definition set_iteration :: "env \<Rightarrow> string list \<Rightarrow> string list" where
  "set_iteration e xs = sort_key (set_hash e) (remdups xs)"

text \<open>
  The loop over the stub emails. An insert that raises is logged and the loop goes on;
  the transaction is then aborted, and every later statement of it raises as well. The
  flag says whether the transaction is aborted.
\<close>

fun insert_stubs :: "env \<Rightarrow> string list \<Rightarrow> bool \<times> store \<Rightarrow> bool \<times> store" where
  "insert_stubs e [] st = st"
| "insert_stubs e (em # ems) (aborted, w) =
     (if aborted then insert_stubs e ems (True, w)
      else
        (case sql_customers_without e (''Guest'', ''Customer'', em, None, None, None) w of
           (Some err, w') \<Rightarrow> insert_stubs e ems (True, w')
         | (None, w') \<Rightarrow> insert_stubs e ems (False, w')))"

text \<open>\<^verbatim>\<open>sales_df["email"].map(email_to_db_cid)\<close> and \<^verbatim>\<open>dropna\<close> on one line.\<close>

definition map_customer_id :: "(string option \<rightharpoonup> int) \<Rightarrow> sales_row \<Rightarrow> sales_row list" where
  "map_customer_id email_to_db_cid r =
     (case fs_email r of
        None \<Rightarrow> []
      | Some em \<Rightarrow>
          (case email_to_db_cid (Some em) of
             None \<Rightarrow> []
           | Some cid \<Rightarrow> [r\<lparr>fs_customer_id := cid\<rparr>]))"

definition remap_sales_customer_ids ::
  "env \<Rightarrow> nat \<Rightarrow> sales_row list \<Rightarrow> store \<Rightarrow> sales_row list \<times> store \<times> nat" where
  "remap_sales_customer_ids e n sales_df s =
     (if \<exists>r \<in> set sales_df. fs_email r = None
      then
        (let (sales_df', stub_emails, n') = assign_stub_emails e n sales_df;
             (aborted, w) = insert_stubs e (set_iteration e stub_emails) (False, s);
             s' = (if aborted then rollback s w else w);
             email_to_db_cid = fetch_customer_id_by_email s'
         in (concat (map (map_customer_id email_to_db_cid) sales_df'), s', n'))
      else
        (let email_to_db_cid = fetch_customer_id_by_email s
         in (concat (map (map_customer_id email_to_db_cid) sales_df), s, n)))"

subsection \<open>Products\<close>

definition load_products :: "env \<Rightarrow> products_row frame \<Rightarrow> store \<Rightarrow> error option \<times> store" where
  "load_products e df s =
     (let has_pid = has_product_id (columns df);
          with_id = (if has_pid then filter (\<lambda>r. fp_product_id r \<noteq> None) (rows df) else []);
          without_id = (if has_pid then filter (\<lambda>r. fp_product_id r = None) (rows df)
                        else rows df);
          rows_with = concat (map (\<lambda>r. case fp_product_id r of
                                            Some pid \<Rightarrow>
                                              [\<lparr>p_product_id = pid,
                                                p_product_name = adapt_text (fp_product_name r),
                                                p_category = fp_category r,
                                                p_price = fp_price r,
                                                p_stock_quantity = fp_stock_quantity r\<rparr>]
                                          | None \<Rightarrow> []) with_id);
          rows_without = map (\<lambda>r. (adapt_text (fp_product_name r), fp_category r, fp_price r,
                                      fp_stock_quantity r)) without_id
      in commit s
           (case execute_batch (sql_products_with e) rows_with s of
              (Some err, w) \<Rightarrow> (Some err, w)
            | (None, w) \<Rightarrow> execute_batch (sql_products_without e) rows_without w))"

subsection \<open>Orders and order items\<close>

text \<open>The aggregation \<^verbatim>\<open>"first"\<close> of a group: its first value that is not missing.\<close>

fun first_valid :: "'a option list \<Rightarrow> 'a option" where
  "first_valid [] = None"
| "first_valid (None # xs) = first_valid xs"
| "first_valid (Some x # xs) = Some x"

text \<open>
  \<^verbatim>\<open>groupby("transaction_id")\<close>: one group per transaction id that is not missing, in
  ascending order of the ids.
\<close>

definition group_keys :: "sales_row list \<Rightarrow> int list" where
  "group_keys sales_df =
     sort (remdups (concat (map (\<lambda>r. case fs_transaction_id r of
                                         Some t \<Rightarrow> [t] | None \<Rightarrow> []) sales_df)))"

definition group_of :: "sales_row list \<Rightarrow> int \<Rightarrow> sales_row list" where
  "group_of sales_df t = filter (\<lambda>r. fs_transaction_id r = Some t) sales_df"

record orders_row =
  fo_order_id :: int
  fo_customer_id :: "int option"
  fo_order_date :: "string option"
  fo_total_amount :: real

definition build_orders :: "sales_row list \<Rightarrow> orders_row list" where
  "build_orders sales_df =
     map (\<lambda>t. let grp = group_of sales_df t
              in \<lparr>fo_order_id = t,
                  fo_customer_id = first_valid (map (\<lambda>r. Some (fs_customer_id r)) grp),
                  fo_order_date = first_valid (map fs_transaction_date grp),
                  fo_total_amount = sum_list (map fs_subtotal grp)\<rparr>)
       (group_keys sales_df)"

text \<open>The tuples of \<^verbatim>\<open>order_rows\<close>; \<^verbatim>\<open>int\<close> of a missing customer id raises.\<close>

fun order_rows ::
  "orders_row list \<Rightarrow> error + (int \<times> int \<times> string option \<times> real \<times> string) list" where
  "order_rows [] = Inr []"
| "order_rows (r # rs) =
     (case fo_customer_id r of
        None \<Rightarrow> Inl (ValueError ''cannot convert float NaN to integer'')
      | Some cid \<Rightarrow>
          (case order_rows rs of
             Inl err \<Rightarrow> Inl err
           | Inr rest \<Rightarrow>
               Inr ((fo_order_id r, cid, fo_order_date r, fo_total_amount r, ''Completed'')
                    # rest)))"

text \<open>The candidate items whose order id is among the order ids read back from the store.\<close>

definition item_rows :: "int list \<Rightarrow> sales_row list \<Rightarrow> (int \<times> int \<times> int \<times> real \<times> real) list" where
  "item_rows existing_orders sales_df =
     concat (map (\<lambda>r. case fs_transaction_id r of
                         None \<Rightarrow> []
                       | Some t \<Rightarrow>
                           if t \<in> set existing_orders
                           then [(t, fs_product_id r, fs_quantity r, fs_unit_price r,
                                  fs_subtotal r)]
                           else []) sales_df)"

definition load_orders_and_items :: "env \<Rightarrow> sales_row list \<Rightarrow> store \<Rightarrow> error option \<times> store" where
  "load_orders_and_items e sales_df s =
     (case order_rows (build_orders sales_df) of
        Inl err \<Rightarrow> (Some err, s)
      | Inr rows_o \<Rightarrow>
          (case commit s (execute_batch (sql_orders e) rows_o s) of
             (Some err, s1) \<Rightarrow> (Some err, s1)
           | (None, s1) \<Rightarrow>
               (let existing_orders = map o_order_id (orders s1)
                in commit s1
                     (execute_batch (sql_items e) (item_rows existing_orders sales_df) s1))))"

section \<open>Orchestration\<close>

text \<open>
  What a run leaves behind: the exception it ends with, if any, whether the connection
  to the store was opened, and the store.
\<close>

record outcome =
  failure :: "error option"
  opened :: bool
  db :: store

definition run :: "env \<Rightarrow> input_files \<Rightarrow> store \<Rightarrow> outcome" where
  "run e files s =
     (case extract_csv files of
        Some err \<Rightarrow> \<lparr>failure = Some err, opened = False, db = s\<rparr>
      | None \<Rightarrow>
          (let (customers_df, n1) = transform_customers e 1 (rows (customers_file files));
               products_df = transform_products e (products_file files)
           in case transform_sales_initial e customers_df (sales_file files) of
                Inl err \<Rightarrow> \<lparr>failure = Some err, opened = False, db = s\<rparr>
              | Inr sales_df \<Rightarrow>
                  (case upsert_customers e customers_df s of
                     (Some err, s1) \<Rightarrow> \<lparr>failure = Some err, opened = True, db = s1\<rparr>
                   | (None, s1) \<Rightarrow>
                       (case load_products e products_df s1 of
                          (Some err, s2) \<Rightarrow> \<lparr>failure = Some err, opened = True, db = s2\<rparr>
                        | (None, s2) \<Rightarrow>
                            (let (remapped_sales, s3, n2) =
                                   remap_sales_customer_ids e n1 sales_df s2;
                                 (res, s4) = load_orders_and_items e remapped_sales s3
                             in \<lparr>failure = res, opened = True, db = s4\<rparr>)))))"

section \<open>A concrete environment\<close>

text \<open>
  The environment of the examples below. Numbers are plain decimal literals, dates are
  taken in ISO form only (no other format parses), the n-th uuid starts with the decimal
  digits of \<open>n\<close>, a set is iterated in the order of its first insertions, and the store
  checks the lengths of the VARCHAR columns, the form of the dates and the range of
  NUMERIC(10,2).
\<close>

definition decimal_literal :: "string \<Rightarrow> real option" where
  "decimal_literal s =
     (let negative = (take 1 s = ''-'');
          body = (if negative then drop 1 s else s);
          whole = takeWhile isdigit body;
          rest = dropWhile isdigit body;
          frac = (if rest = [] then Some []
                  else if take 1 rest = ''.'' \<and> list_all isdigit (drop 1 rest)
                  then Some (drop 1 rest) else None)
      in case frac of
           None \<Rightarrow> None
         | Some f \<Rightarrow>
             if whole = [] \<and> f = [] then None
             else Some ((if negative then - 1 else 1) *
                        (real_of_int (int_of_digits whole) +
                         real_of_int (int_of_digits f) / 10 ^ length f)))"

definition sample_env :: env where
  "sample_env =
     \<lparr>to_numeric = decimal_literal,
      strptime = (\<lambda>s fmt. None),
      to_datetime = (\<lambda>s hint. None),
      uuid4_hex = (\<lambda>n. take 32 (nat_digits n @ replicate 32 (CHR ''a''))),
      set_hash = (\<lambda>s. 0),
      customers_ok = (\<lambda>r. length (c_first_name r) \<le> 50 \<and> length (c_last_name r) \<le> 50 \<and>
                         length (c_email r) \<le> 100 \<and>
                         (case c_phone r of None \<Rightarrow> True | Some ph \<Rightarrow> length ph \<le> 20) \<and>
                         (case c_city r of None \<Rightarrow> True | Some ci \<Rightarrow> length ci \<le> 50) \<and>
                         (case c_registration_date r of None \<Rightarrow> True | Some d \<Rightarrow> iso_pattern d)),
      products_ok = (\<lambda>r. length (p_product_name r) \<le> 100 \<and> length (p_category r) \<le> 50 \<and>
                        \<bar>p_price r\<bar> < 100000000),
      orders_ok = (\<lambda>r. iso_pattern (o_order_date r) \<and> \<bar>o_total_amount r\<bar> < 100000000 \<and>
                      (case o_status r of None \<Rightarrow> True | Some st \<Rightarrow> length st \<le> 20)),
      order_items_ok = (\<lambda>r. \<bar>i_unit_price r\<bar> < 100000000 \<and> \<bar>i_subtotal r\<bar> < 100000000)\<rparr>"

section \<open>Specification predicates and examples\<close>

text \<open>
  Referential integrity of a store: every order item points to an order and to a product
  of the store, every order to a customer of the store.
\<close>

definition ref_integrity :: "store \<Rightarrow> bool" where
  "ref_integrity s =
     ((\<forall>i \<in> set (order_items s).
         i_order_id i \<in> set (map o_order_id (orders s)) \<and>
         i_product_id i \<in> set (map p_product_id (products s))) \<and>
      (\<forall>oo \<in> set (orders s). o_customer_id oo \<in> set (map c_customer_id (customers s))))"

text \<open>
  Three small files: one customer with the id 5, one product without an id of its own,
  and one sale of that product to the customer id 9, which no customer row has.
\<close>

definition example_customer :: customers_csv where
  "example_customer =
     \<lparr>rc_first_name = Some ''Ann'', rc_last_name = Some ''Lee'',
      rc_email = Some ''ann@x.com'', rc_phone = None, rc_city = None,
      rc_registration_date = Some ''2023-01-05'', rc_customer_id = Some ''C005''\<rparr>"

definition example_product :: products_csv where
  "example_product =
     \<lparr>rp_product_name = Some ''Pen'', rp_category = Some ''office'', rp_price = Some ''2.5'',
      rp_stock_quantity = Some ''10'', rp_product_id = None, rp_extra = []\<rparr>"

definition dangling_sale :: sales_csv where
  "dangling_sale =
     \<lparr>rs_transaction_id = Some ''T001'', rs_transaction_date = Some ''2023-02-01'',
      rs_customer_id = Some ''C009'', rs_product_id = Some ''P001'', rs_quantity = Some ''2'',
      rs_unit_price = Some ''2.5'', rs_extra = []\<rparr>"

definition dangling_files :: input_files where
  "dangling_files =
     \<lparr>customers_file = \<lparr>columns = customers_required, rows = [example_customer]\<rparr>,
      products_file = \<lparr>columns = products_required, rows = [example_product]\<rparr>,
      sales_file = \<lparr>columns = sales_required, rows = [dangling_sale]\<rparr>\<rparr>"

text \<open>The files of the example, the header of the customers cut down to one column.\<close>

definition headerless_files :: input_files where
  "headerless_files =
     dangling_files\<lparr>customers_file := \<lparr>columns = [''first_name''], rows = []\<rparr>\<rparr>"



text \<open>
  Two resolved sales lines of the transaction 7; the date of the first line did not parse,
  the second line has a date.
\<close>

definition undated_first_sales :: "sales_row list" where
  "undated_first_sales =
     [\<lparr>fs_transaction_id = Some 7, fs_transaction_date = None, fs_customer_id = 3,
       fs_product_id = 1, fs_quantity = 1, fs_unit_price = 4, fs_subtotal = 4,
       fs_email = Some ''a@x.com''\<rparr>,
      \<lparr>fs_transaction_id = Some 7, fs_transaction_date = Some ''2023-03-02'',
       fs_customer_id = 3, fs_product_id = 2, fs_quantity = 2, fs_unit_price = 3,
       fs_subtotal = 6, fs_email = Some ''a@x.com''\<rparr>]"

text \<open>
  Two customer rows whose emails differ in letter case and whitespace only.
\<close>

definition duplicate_customers :: "customers_csv list" where
  "duplicate_customers =
     [\<lparr>rc_first_name = Some ''Ann'', rc_last_name = Some ''Lee'',
       rc_email = Some '' Ann@X.com '', rc_phone = Some ''+91 98765-43210'', rc_city = Some ''Pune'',
       rc_registration_date = Some ''2023-01-05'', rc_customer_id = Some ''C005''\<rparr>,
      \<lparr>rc_first_name = Some ''Anna'', rc_last_name = Some ''Lee'',
       rc_email = Some ''ann@x. com'', rc_phone = None, rc_city = None,
       rc_registration_date = None, rc_customer_id = Some ''C006''\<rparr>]"






section \<open>Properties\<close>

subsection \<open>Dates\<close>

text \<open>
  C5. \<^verbatim>\<open>clean_date\<close> on a string of the exact form YYYY-MM-DD returns it as it is, whether
  or not it is a date of the calendar: \<^verbatim>\<open>"2023-02-30"\<close> comes back unchanged, where the
  claim (and the comment above the function, "Returns None for invalid/empty dates") has
  None. The valid \<^verbatim>\<open>"2023-07-04"\<close> comes back unchanged, as claimed. Neither result
  depends on the library parsers.
\<close>

theorem clean_date_iso_fast_path:
  "clean_date e (Some ''2023-02-30'') = Some ''2023-02-30'' \<and>
   clean_date e (Some ''2023-07-04'') = Some ''2023-07-04''"
  by (simp add: clean_date_def strip_def isspace_def iso_pattern_def isdigit_def)

subsection \<open>Invariants of a run\<close>

lemma execute_batch_preserves:
  assumes "\<And>r s. r \<in> set rs \<Longrightarrow> P s \<Longrightarrow> P (snd (stmt r s))"
  shows "P s \<Longrightarrow> P (snd (execute_batch stmt rs s))"
  using assms
proof (induction rs arbitrary: s)
  case Nil
  then show ?case by simp
next
  case (Cons r rs)
  obtain err s' where st: "stmt r s = (err, s')" by (cases "stmt r s")
  have "P s'" using Cons.prems(2) [of r s] Cons.prems(1) st by simp
  then show ?case using st Cons.IH [of s'] Cons.prems(2) by (cases err) simp_all
qed

lemma commit_preserves:
  assumes seqs: "\<And>s a b c. P s \<Longrightarrow> P (s\<lparr>customers_seq := a, products_seq := b, order_items_seq := c\<rparr>)"
  assumes "P s" "P (snd res)"
  shows "P (snd (commit s res))"
  using assms by (cases res) (auto simp: commit_def rollback_def split: option.splits)

lemma stage_preserves:
  assumes seqs: "\<And>s a b c. P s \<Longrightarrow> P (s\<lparr>customers_seq := a, products_seq := b, order_items_seq := c\<rparr>)"
  assumes one: "\<And>r s. P s \<Longrightarrow> P (snd (stmta r s))"
  assumes two: "\<And>r s. P s \<Longrightarrow> P (snd (stmtb r s))"
  assumes "P s"
  shows "P (snd (commit s (case execute_batch stmta rsa s of
                             (Some err, w) \<Rightarrow> (Some err, w)
                           | (None, w) \<Rightarrow> execute_batch stmtb rsb w)))"
proof -
  obtain err w where b1: "execute_batch stmta rsa s = (err, w)"
    by (cases "execute_batch stmta rsa s")
  have w: "P w"
    using execute_batch_preserves [where P = P and stmt = stmta and s = s and rs = rsa]
      one \<open>P s\<close> b1 by simp
  have "P (snd (execute_batch stmtb rsb w))"
    using execute_batch_preserves [where P = P and stmt = stmtb and s = w and rs = rsb]
      two w by simp
  then have "P (snd (case execute_batch stmta rsa s of
                       (Some err, w) \<Rightarrow> (Some err, w)
                     | (None, w) \<Rightarrow> execute_batch stmtb rsb w))"
    using b1 w by (cases err) simp_all
  then show ?thesis
    using commit_preserves [where P = P and s = s] seqs \<open>P s\<close> by blast
qed

lemma sql_customers_without_preserves:
  assumes cseq: "\<And>s a. P s \<Longrightarrow> P (s\<lparr>customers_seq := a\<rparr>)"
  assumes cust: "\<And>r s. P s \<Longrightarrow> P (snd (put_customer e r s))"
  assumes "P s"
  shows "P (snd (sql_customers_without e row s))"
  using assms by (simp add: sql_customers_without_def Let_def)

lemma upsert_customers_preserves:
  assumes seqs: "\<And>s a b c. P s \<Longrightarrow> P (s\<lparr>customers_seq := a, products_seq := b, order_items_seq := c\<rparr>)"
  assumes cseq: "\<And>s a. P s \<Longrightarrow> P (s\<lparr>customers_seq := a\<rparr>)"
  assumes cust: "\<And>r s. P s \<Longrightarrow> P (snd (put_customer e r s))"
  assumes "P s"
  shows "P (snd (upsert_customers e df s))"
proof -
  have "P (snd (sql_customers_with e r t))" if "P t" for r t
    using cust that by (simp add: sql_customers_with_def)
  moreover have "P (snd (sql_customers_without e r t))" if "P t" for r t
    using sql_customers_without_preserves [where P = P and e = e and s = t] cseq cust that
    by blast
  ultimately show ?thesis
    unfolding upsert_customers_def Let_def
    using stage_preserves [where P = P and s = s and stmta = "sql_customers_with e"
        and stmtb = "sql_customers_without e"] seqs \<open>P s\<close>
    by blast
qed

lemma load_products_preserves:
  assumes seqs: "\<And>s a b c. P s \<Longrightarrow> P (s\<lparr>customers_seq := a, products_seq := b, order_items_seq := c\<rparr>)"
  assumes pw: "\<And>r s. P s \<Longrightarrow> P (snd (sql_products_with e r s))"
  assumes pwo: "\<And>r s. P s \<Longrightarrow> P (snd (sql_products_without e r s))"
  assumes "P s"
  shows "P (snd (load_products e df s))"
  unfolding load_products_def Let_def
  using stage_preserves [where P = P and s = s and stmta = "sql_products_with e"
      and stmtb = "sql_products_without e"] seqs pw pwo \<open>P s\<close>
  by blast

lemma insert_stubs_preserves:
  assumes cseq: "\<And>s a. P s \<Longrightarrow> P (s\<lparr>customers_seq := a\<rparr>)"
  assumes cust: "\<And>r s. P s \<Longrightarrow> P (snd (put_customer e r s))"
  shows "P w \<Longrightarrow> P (snd (insert_stubs e ems (aborted, w)))"
proof (induction ems arbitrary: aborted w)
  case Nil
  then show ?case by simp
next
  case (Cons em ems)
  let ?res = "sql_customers_without e (''Guest'', ''Customer'', em, None, None, None) w"
  have "P (snd ?res)"
    using sql_customers_without_preserves [where P = P and e = e and s = w] cseq cust Cons.prems
    by blast
  then show ?case
    using Cons.IH Cons.prems by (cases ?res) (auto split: option.splits)
qed

lemma remap_preserves:
  assumes seqs: "\<And>s a b c. P s \<Longrightarrow> P (s\<lparr>customers_seq := a, products_seq := b, order_items_seq := c\<rparr>)"
  assumes cseq: "\<And>s a. P s \<Longrightarrow> P (s\<lparr>customers_seq := a\<rparr>)"
  assumes cust: "\<And>r s. P s \<Longrightarrow> P (snd (put_customer e r s))"
  assumes "P s"
  shows "P (fst (snd (remap_sales_customer_ids e n sales_df s)))"
proof -
  have "P (snd (insert_stubs e ems (False, s)))" for ems
    using insert_stubs_preserves [where P = P and e = e and w = s] cseq cust \<open>P s\<close> by blast
  moreover have "P (rollback s w)" for w
    unfolding rollback_def by (rule seqs [OF \<open>P s\<close>])
  ultimately show ?thesis
    using \<open>P s\<close>
    by (auto simp: remap_sales_customer_ids_def Let_def split: prod.splits)
       (metis snd_conv)
qed

lemma order_rows_completed:
  "order_rows os = Inr rws \<Longrightarrow> r \<in> set rws
   \<Longrightarrow> (case r of (oid, cid, d, t, st) \<Rightarrow> st = ''Completed'')"
  by (induction os arbitrary: rws) (auto split: option.splits sum.splits)

lemma load_orders_and_items_preserves:
  assumes seqs: "\<And>s a b c. P s \<Longrightarrow> P (s\<lparr>customers_seq := a, products_seq := b, order_items_seq := c\<rparr>)"
  assumes ord: "\<And>r s. (case r of (oid, cid, d, t, st) \<Rightarrow> st = ''Completed'') \<Longrightarrow> P s
                  \<Longrightarrow> P (snd (sql_orders e r s))"
  assumes itm: "\<And>r s. P s \<Longrightarrow> P (snd (sql_items e r s))"
  assumes "P s"
  shows "P (snd (load_orders_and_items e sales_df s))"
proof (cases "order_rows (build_orders sales_df)")
  case (Inl err)
  then show ?thesis using \<open>P s\<close> by (simp add: load_orders_and_items_def)
next
  case (Inr rows_o)
  have completed: "case r of (oid, cid, d, t, st) \<Rightarrow> st = ''Completed''"
    if "r \<in> set rows_o" for r
    using order_rows_completed [OF Inr that] .
  let ?c1 = "commit s (execute_batch (sql_orders e) rows_o s)"
  have "P (snd (execute_batch (sql_orders e) rows_o s))"
    using execute_batch_preserves [where P = P and stmt = "sql_orders e" and s = s and rs = rows_o]
      ord completed \<open>P s\<close>
    by blast
  then have c1: "P (snd ?c1)"
    using commit_preserves [where P = P and s = s] seqs \<open>P s\<close> by blast
  obtain err s1 where eq: "?c1 = (err, s1)" by (cases ?c1)
  with c1 have s1: "P s1" by simp
  have "P (snd (execute_batch (sql_items e) rws s1))" for rws
    using execute_batch_preserves [where P = P and stmt = "sql_items e" and s = s1] itm s1
    by blast
  then have "P (snd (commit s1 (execute_batch (sql_items e) rws s1)))" for rws
    using commit_preserves [where P = P and s = s1] seqs s1 by blast
  then show ?thesis
    using Inr eq s1 by (cases err) (simp_all add: load_orders_and_items_def Let_def)
qed

text \<open>
  A property of the store that every statement of the loader preserves, and that does not
  depend on the sequences, holds after a run if it holds before. An order statement is
  only ever run on a row with the status of the loader.
\<close>

lemma run_preserves:
  assumes seqs: "\<And>s a b c. P s \<Longrightarrow> P (s\<lparr>customers_seq := a, products_seq := b, order_items_seq := c\<rparr>)"
  assumes cseq: "\<And>s a. P s \<Longrightarrow> P (s\<lparr>customers_seq := a\<rparr>)"
  assumes cust: "\<And>r s. P s \<Longrightarrow> P (snd (put_customer e r s))"
  assumes pw: "\<And>r s. P s \<Longrightarrow> P (snd (sql_products_with e r s))"
  assumes pwo: "\<And>r s. P s \<Longrightarrow> P (snd (sql_products_without e r s))"
  assumes ord: "\<And>r s. (case r of (oid, cid, d, t, st) \<Rightarrow> st = ''Completed'') \<Longrightarrow> P s
                  \<Longrightarrow> P (snd (sql_orders e r s))"
  assumes itm: "\<And>r s. P s \<Longrightarrow> P (snd (sql_items e r s))"
  assumes "P s"
  shows "P (db (run e files s))"
proof -
  have uc: "P (snd (upsert_customers e df t))" if "P t" for df t
    using upsert_customers_preserves [where P = P and e = e and s = t and df = df]
      seqs cseq cust that by blast
  have lp: "P (snd (load_products e df t))" if "P t" for df t
    using load_products_preserves [where P = P and e = e and s = t and df = df]
      seqs pw pwo that by blast
  have rm: "P (fst (snd (remap_sales_customer_ids e n df t)))" if "P t" for n df t
    using remap_preserves [where P = P and e = e and s = t and sales_df = df and n = n]
      seqs cseq cust that by blast
  have lo: "P (snd (load_orders_and_items e df t))" if "P t" for df t
    using load_orders_and_items_preserves [where P = P and e = e and s = t and sales_df = df]
      seqs ord itm that by blast
  show ?thesis
  proof (cases "extract_csv files")
    case (Some err)
    then show ?thesis using \<open>P s\<close> by (simp add: run_def)
  next
    case None
    obtain customers_df n1 where tc:
      "transform_customers e 1 (rows (customers_file files)) = (customers_df, n1)"
      by (cases "transform_customers e 1 (rows (customers_file files))")
    show ?thesis
    proof (cases "transform_sales_initial e customers_df (sales_file files)")
      case (Inl err)
      then show ?thesis using \<open>P s\<close> None tc by (simp add: run_def)
    next
      case (Inr sales_df)
      obtain r1 s1 where u: "upsert_customers e customers_df s = (r1, s1)"
        by (cases "upsert_customers e customers_df s")
      have s1: "P s1" using uc [OF \<open>P s\<close>, of customers_df] u by simp
      obtain r2 s2 where l:
        "load_products e (transform_products e (products_file files)) s1 = (r2, s2)"
        by (cases "load_products e (transform_products e (products_file files)) s1")
      have s2: "P s2"
        using lp [OF s1, of "transform_products e (products_file files)"] l by simp
      obtain out s3 n2 where r: "remap_sales_customer_ids e n1 sales_df s2 = (out, s3, n2)"
        by (cases "remap_sales_customer_ids e n1 sales_df s2")
      have s3: "P s3" using rm [OF s2, of n1 sales_df] r by simp
      obtain r4 s4 where o: "load_orders_and_items e out s3 = (r4, s4)"
        by (cases "load_orders_and_items e out s3")
      have s4: "P s4" using lo [OF s3, of out] o by simp
      show ?thesis
        using None tc Inr u l r o s1 s2 s4
        by (cases r1; cases r2) (simp_all add: run_def)
    qed
  qed
qed

subsection \<open>Referential integrity\<close>

lemma ref_integrity_put_customer: "ref_integrity s \<Longrightarrow> ref_integrity (snd (put_customer e r s))"
  by (auto simp: ref_integrity_def put_customer_def)

lemma ref_integrity_sql_products_with:
  "ref_integrity s \<Longrightarrow> ref_integrity (snd (sql_products_with e r s))"
  by (auto simp: ref_integrity_def sql_products_with_def)

lemma ref_integrity_sql_products_without:
  "ref_integrity s \<Longrightarrow> ref_integrity (snd (sql_products_without e r s))"
  by (cases r) (auto simp: ref_integrity_def sql_products_without_def Let_def)

lemma ref_integrity_sql_orders:
  "ref_integrity s \<Longrightarrow> ref_integrity (snd (sql_orders e r s))"
  by (cases r) (auto simp: ref_integrity_def sql_orders_def insert_order_def Let_def split: option.splits)

lemma ref_integrity_sql_items:
  "ref_integrity s \<Longrightarrow> ref_integrity (snd (sql_items e r s))"
  by (cases r) (auto simp: ref_integrity_def sql_items_def Let_def)

text \<open>Which errors a run can end with: of the three foreign keys, only the product of an item.\<close>

lemma execute_batch_error:
  assumes inv: "\<And>r s. Q s \<Longrightarrow> Q (snd (stmt r s))"
  shows "Q s \<Longrightarrow> (\<And>r t. r \<in> set rs \<Longrightarrow> Q t \<Longrightarrow> fst (stmt r t) \<noteq> Some bad)
         \<Longrightarrow> fst (execute_batch stmt rs s) \<noteq> Some bad"
proof (induction rs arbitrary: s)
  case Nil
  then show ?case by simp
next
  case (Cons r rs)
  obtain err s' where st: "stmt r s = (err, s')" by (cases "stmt r s")
  have "Q s'" using inv [OF Cons.prems(1), of r] st by simp
  moreover have "err \<noteq> Some bad" using Cons.prems(2) [of r s] Cons.prems(1) st by simp
  ultimately show ?case
    using st Cons.IH [of s'] Cons.prems(2) by (cases err) simp_all
qed

lemma fst_commit [simp]: "fst (commit s res) = fst res"
  by (cases res) (simp add: commit_def split: option.splits)

lemma put_customer_no_fk: "fst (put_customer e r s) \<noteq> Some (ForeignKeyViolation c)"
  by (simp add: put_customer_def)

lemma sql_customers_with_no_fk: "fst (sql_customers_with e r s) \<noteq> Some (ForeignKeyViolation c)"
  by (simp add: sql_customers_with_def put_customer_no_fk)

lemma sql_customers_without_no_fk:
  "fst (sql_customers_without e r s) \<noteq> Some (ForeignKeyViolation c)"
  by (simp add: sql_customers_without_def Let_def put_customer_no_fk)

lemma sql_products_with_no_fk: "fst (sql_products_with e r s) \<noteq> Some (ForeignKeyViolation c)"
  by (simp add: sql_products_with_def)

lemma sql_products_without_no_fk:
  "fst (sql_products_without e r s) \<noteq> Some (ForeignKeyViolation c)"
  by (cases r) (simp add: sql_products_without_def Let_def)

lemma two_batches_no_fk:
  assumes "\<And>r s. fst (stmt1 r s) \<noteq> Some (ForeignKeyViolation c)"
  assumes "\<And>r s. fst (stmt2 r s) \<noteq> Some (ForeignKeyViolation c)"
  shows "fst (case execute_batch stmt1 rs1 s of
                (Some err, w) \<Rightarrow> (Some err, w)
              | (None, w) \<Rightarrow> execute_batch stmt2 rs2 w) \<noteq> Some (ForeignKeyViolation c)"
proof -
  have 1: "fst (execute_batch stmt1 rs1 t) \<noteq> Some (ForeignKeyViolation c)" for t
    using execute_batch_error [where Q = "\<lambda>_. True" and stmt = stmt1] assms(1) by blast
  have 2: "fst (execute_batch stmt2 rs2 t) \<noteq> Some (ForeignKeyViolation c)" for t
    using execute_batch_error [where Q = "\<lambda>_. True" and stmt = stmt2] assms(2) by blast
  obtain err w where b: "execute_batch stmt1 rs1 s = (err, w)"
    by (cases "execute_batch stmt1 rs1 s")
  show ?thesis using 1 [of s] 2 [of w] b by (cases err) simp_all
qed

lemma upsert_customers_no_fk:
  "fst (upsert_customers e df s) \<noteq> Some (ForeignKeyViolation c)"
  unfolding upsert_customers_def Let_def fst_commit
  by (rule two_batches_no_fk) (rule sql_customers_with_no_fk sql_customers_without_no_fk)+

lemma load_products_no_fk:
  "fst (load_products e df s) \<noteq> Some (ForeignKeyViolation c)"
  unfolding load_products_def Let_def fst_commit
  by (rule two_batches_no_fk) (rule sql_products_with_no_fk sql_products_without_no_fk)+

lemma fetch_customer_id_by_email_known:
  "fetch_customer_id_by_email s k = Some cid \<Longrightarrow> cid \<in> c_customer_id ` set (customers s)"
  by (auto simp: fetch_customer_id_by_email_def dest!: map_of_SomeD)

lemma map_customer_id_known:
  "r \<in> set (map_customer_id (fetch_customer_id_by_email s) l)
   \<Longrightarrow> fs_customer_id r \<in> c_customer_id ` set (customers s)"
  by (auto simp: map_customer_id_def split: option.splits
           dest: fetch_customer_id_by_email_known [OF sym])

lemma remap_customer_known:
  assumes "remap_sales_customer_ids e n sales_df s = (out, s', n')" "r \<in> set out"
  shows "fs_customer_id r \<in> c_customer_id ` set (customers s')"
  using assms
  by (auto simp: remap_sales_customer_ids_def Let_def
           split: if_splits prod.splits dest: map_customer_id_known)

lemma first_valid_mem: "first_valid xs = Some x \<Longrightarrow> Some x \<in> set xs"
  by (induction xs rule: first_valid.induct) auto

lemma build_orders_customer:
  "oo \<in> set (build_orders sales_df) \<Longrightarrow> fo_customer_id oo = Some cid
   \<Longrightarrow> cid \<in> fs_customer_id ` set sales_df"
  by (auto simp: build_orders_def Let_def group_of_def dest!: first_valid_mem)

lemma order_rows_mem:
  "order_rows os = Inr rws \<Longrightarrow> (oid, cid, d, t, st) \<in> set rws
   \<Longrightarrow> st = ''Completed'' \<and> (\<exists>oo \<in> set os. fo_customer_id oo = Some cid \<and> fo_order_id oo = oid)"
  by (induction os arbitrary: rws) (auto split: option.splits sum.splits)

lemma order_rows_error:
  "order_rows os = Inl err \<Longrightarrow> err = ValueError ''cannot convert float NaN to integer''"
  by (induction os) (auto split: option.splits sum.splits)

lemma customers_sql_orders [simp]: "customers (snd (sql_orders e r s)) = customers s"
  by (cases r) (simp add: sql_orders_def insert_order_def Let_def split: option.splits)

lemma orders_sql_items [simp]: "orders (snd (sql_items e r s)) = orders s"
  by (cases r) (simp add: sql_items_def Let_def)

lemma sql_orders_fk:
  "fst (sql_orders e (oid, cid, d, t, st) s) = Some (ForeignKeyViolation c)
   \<Longrightarrow> c = ''fk_orders_customer'' \<and> cid \<notin> c_customer_id ` set (customers s)"
  by (simp add: sql_orders_def insert_order_def Let_def split: option.splits if_splits)

lemma sql_items_fk:
  "fst (sql_items e (oid, pid, q, u, t) s) = Some (ForeignKeyViolation c)
   \<Longrightarrow> (c = ''fk_items_order'' \<and> oid \<notin> o_order_id ` set (orders s)) \<or>
       c = ''fk_items_product''"
  by (simp add: sql_items_def Let_def split: if_splits)

lemma item_rows_existing:
  "(oid, pid, q, u, t) \<in> set (item_rows existing sales_df) \<Longrightarrow> oid \<in> set existing"
  by (auto simp: item_rows_def split: option.splits if_splits)

lemma load_orders_and_items_fk:
  assumes known: "\<forall>r \<in> set sales_df. fs_customer_id r \<in> c_customer_id ` set (customers s)"
  assumes "fst (load_orders_and_items e sales_df s) = Some (ForeignKeyViolation c)"
  shows "c = ''fk_items_product''"
proof (cases "order_rows (build_orders sales_df)")
  case (Inl err)
  with assms(2) order_rows_error [OF Inl] show ?thesis
    by (simp add: load_orders_and_items_def)
next
  case (Inr rows_o)
  have rows_known: "cid \<in> c_customer_id ` set (customers s)"
    if "(oid, cid, d, t, st) \<in> set rows_o" for oid cid d t st
  proof -
    from order_rows_mem [OF Inr that] obtain oo where
      "oo \<in> set (build_orders sales_df)" "fo_customer_id oo = Some cid" by blast
    then have "cid \<in> fs_customer_id ` set sales_df" by (rule build_orders_customer)
    with known show ?thesis by blast
  qed
  have o_fk: "fst (execute_batch (sql_orders e) rows_o s) \<noteq> Some (ForeignKeyViolation c)"
  proof (rule execute_batch_error [where Q = "\<lambda>t. customers t = customers s"])
    show "customers s = customers s" by simp
  next
    fix r and t :: store assume "customers t = customers s"
    then show "customers (snd (sql_orders e r t)) = customers s" by simp
  next
    fix r and t :: store assume r: "r \<in> set rows_o" and t: "customers t = customers s"
    obtain oid cid d tot st where [simp]: "r = (oid, cid, d, tot, st)" by (cases r)
    show "fst (sql_orders e r t) \<noteq> Some (ForeignKeyViolation c)"
      using sql_orders_fk [of e oid cid d tot st t c] rows_known [of oid cid d tot st] r t
      by auto
  qed
  let ?c1 = "commit s (execute_batch (sql_orders e) rows_o s)"
  obtain err s1 where eq: "?c1 = (err, s1)" by (cases ?c1)
  have err: "err \<noteq> Some (ForeignKeyViolation c)" using o_fk eq
    by (metis fst_commit fst_conv)
  let ?items = "item_rows (map o_order_id (orders s1)) sales_df"
  have i_fk: "fst (execute_batch (sql_items e) ?items s1) \<noteq> Some (ForeignKeyViolation c)"
    if "c \<noteq> ''fk_items_product''"
  proof (rule execute_batch_error [where Q = "\<lambda>t. orders t = orders s1"])
    show "orders s1 = orders s1" by simp
  next
    fix r and t :: store assume "orders t = orders s1"
    then show "orders (snd (sql_items e r t)) = orders s1" by simp
  next
    fix r and t :: store assume r: "r \<in> set ?items" and t: "orders t = orders s1"
    obtain oid pid q u tot where [simp]: "r = (oid, pid, q, u, tot)" by (cases r)
    show "fst (sql_items e r t) \<noteq> Some (ForeignKeyViolation c)"
      using sql_items_fk [of e oid pid q u tot t c]
        item_rows_existing [of oid pid q u tot "map o_order_id (orders s1)" sales_df] r t that
      by auto
  qed
  show ?thesis
  proof (rule ccontr)
    assume "c \<noteq> ''fk_items_product''"
    from i_fk [OF this] assms(2) Inr eq err show False
      by (cases err) (simp_all add: load_orders_and_items_def Let_def)
  qed
qed

lemma run_fk:
  assumes "failure (run e files s) = Some (ForeignKeyViolation c)"
  shows "c = ''fk_items_product''"
proof -
  have ex: "extract_csv files \<noteq> Some (ForeignKeyViolation c)"
    by (auto simp: extract_csv_def assert_required_columns_def Let_def split: option.splits if_splits)
  have ts: "transform_sales_initial e cs df \<noteq> Inl (ForeignKeyViolation c)" for cs df
    by (simp add: transform_sales_initial_def Let_def)
  show ?thesis
  proof (cases "extract_csv files")
    case (Some err)
    with assms ex show ?thesis by (simp add: run_def)
  next
    case None
    obtain customers_df n1 where tc:
      "transform_customers e 1 (rows (customers_file files)) = (customers_df, n1)"
      by (cases "transform_customers e 1 (rows (customers_file files))")
    show ?thesis
    proof (cases "transform_sales_initial e customers_df (sales_file files)")
      case (Inl err)
      then show ?thesis using assms None tc ts [of customers_df "sales_file files"]
        by (simp add: run_def)
    next
      case (Inr sales_df)
      obtain r1 s1 where u: "upsert_customers e customers_df s = (r1, s1)"
        by (cases "upsert_customers e customers_df s")
      have r1: "r1 \<noteq> Some (ForeignKeyViolation c)"
        using upsert_customers_no_fk [of e customers_df s c] u by simp
      obtain r2 s2 where l: "load_products e (transform_products e (products_file files)) s1 = (r2, s2)"
        by (cases "load_products e (transform_products e (products_file files)) s1")
      have r2: "r2 \<noteq> Some (ForeignKeyViolation c)"
        using load_products_no_fk [where e = e and s = s1 and c = c] l by (metis fst_conv)
      obtain out s3 n2 where r: "remap_sales_customer_ids e n1 sales_df s2 = (out, s3, n2)"
        by (cases "remap_sales_customer_ids e n1 sales_df s2")
      obtain r4 s4 where o: "load_orders_and_items e out s3 = (r4, s4)"
        by (cases "load_orders_and_items e out s3")
      have known: "\<forall>x \<in> set out. fs_customer_id x \<in> c_customer_id ` set (customers s3)"
        using remap_customer_known [OF r] by blast
      have r4: "r4 = Some (ForeignKeyViolation c) \<Longrightarrow> c = ''fk_items_product''"
        using load_orders_and_items_fk [OF known, of e c] o by simp
      show ?thesis
        using assms None tc Inr u l r o r1 r2 r4
        by (cases r1; cases r2) (simp_all add: run_def)
    qed
  qed
qed



text \<open>The run on the example files, evaluated.\<close>

lemma run_dangling_files:
  "run sample_env dangling_files empty_store =
     \<lparr>failure = None, opened = True,
      db = \<lparr>customers =
              [\<lparr>c_customer_id = 5, c_first_name = ''Ann'', c_last_name = ''Lee'',
                c_email = ''ann@x.com'', c_phone = None, c_city = Some ''NaN'',
                c_registration_date = Some ''2023-01-05''\<rparr>,
               \<lparr>c_customer_id = 1, c_first_name = ''Guest'', c_last_name = ''Customer'',
                c_email = ''unknown+1aaaaaaa@example.com'', c_phone = None, c_city = None,
                c_registration_date = None\<rparr>],
            products =
              [\<lparr>p_product_id = 1, p_product_name = ''Pen'', p_category = ''Office'',
                p_price = 5 / 2, p_stock_quantity = 10\<rparr>],
            orders =
              [\<lparr>o_order_id = 1, o_customer_id = 1, o_order_date = ''2023-02-01'',
                o_total_amount = 5, o_status = Some ''Completed''\<rparr>],
            order_items =
              [\<lparr>i_order_item_id = 1, i_order_id = 1, i_product_id = 1, i_quantity = 2,
                i_unit_price = 5 / 2, i_subtotal = 5\<rparr>],
            customers_seq = 1, products_seq = 1, order_items_seq = 1\<rparr>\<rparr>"
  by code_simp

text \<open>
  C1. Referential integrity of the final store. If the store has referential integrity
  before a run, it has it after the run, however the run ends: every order item points
  to an order and to a product of the store, every order to a customer of the store.
  Moreover no run ends with a violation of the foreign key from items to orders or of the
  one from orders to customers: the items are filtered by the order ids read back from
  the store, and every resolved sales line carries a customer id that the store has.
\<close>

theorem referential_integrity_of_final_store:
  assumes "ref_integrity s"
  shows "ref_integrity (db (run e files s)) \<and>
         failure (run e files s) \<noteq> Some (ForeignKeyViolation ''fk_items_order'') \<and>
         failure (run e files s) \<noteq> Some (ForeignKeyViolation ''fk_orders_customer'')"
proof -
  have "ref_integrity (db (run e files s))"
    by (rule run_preserves [where P = ref_integrity])
       (simp_all add: ref_integrity_put_customer ref_integrity_sql_products_with
          ref_integrity_sql_products_without ref_integrity_sql_orders ref_integrity_sql_items
          assms,
        simp_all add: ref_integrity_def)
  moreover have "failure (run e files s) \<noteq> Some (ForeignKeyViolation ''fk_items_order'')"
    using run_fk [of e files s "''fk_items_order''"] by auto
  moreover have "failure (run e files s) \<noteq> Some (ForeignKeyViolation ''fk_orders_customer'')"
    using run_fk [of e files s "''fk_orders_customer''"] by auto
  ultimately show ?thesis by blast
qed

theorem referential_integrity_of_final_store_witness:
  "ref_integrity empty_store \<and>
   ref_integrity (db (run sample_env dangling_files empty_store)) \<and>
   order_items (db (run sample_env dangling_files empty_store)) \<noteq> [] \<and>
   failure (run sample_env dangling_files empty_store) \<noteq>
     Some (ForeignKeyViolation ''fk_items_order'') \<and>
   failure (run sample_env dangling_files empty_store) \<noteq>
     Some (ForeignKeyViolation ''fk_orders_customer'')"
proof -
  have h: "ref_integrity empty_store"
    by (simp add: ref_integrity_def empty_store_def)
  have "order_items (db (run sample_env dangling_files empty_store)) \<noteq> []"
    by (simp add: run_dangling_files)
  with h referential_integrity_of_final_store [OF h, of sample_env dangling_files]
  show ?thesis by blast
qed

subsection \<open>Status of the orders\<close>


lemma orders_put_customer [simp]: "orders (snd (put_customer e r s)) = orders s"
  by (simp add: put_customer_def)

lemma orders_sql_products_with [simp]: "orders (snd (sql_products_with e r s)) = orders s"
  by (simp add: sql_products_with_def)

lemma orders_sql_products_without [simp]: "orders (snd (sql_products_without e r s)) = orders s"
  by (cases r) (simp add: sql_products_without_def Let_def)

lemma orders_sql_orders:
  "oo \<in> set (orders (snd (sql_orders e (oid, cid, d, t, st) s)))
   \<Longrightarrow> oo \<in> set (orders s) \<or> o_status oo = Some st"
  by (auto simp: sql_orders_def insert_order_def Let_def split: option.splits if_splits)

text \<open>
  C10. Every order that a run adds to the store has the status \<^verbatim>\<open>'Completed'\<close>; the
  default \<^verbatim>\<open>'Pending'\<close> of the column is never the status of such a row.
\<close>

theorem pipeline_orders_completed:
  assumes "oo \<in> set (orders (db (run e files s)))" "oo \<notin> set (orders s)"
  shows "o_status oo = Some ''Completed'' \<and> o_status oo \<noteq> Some status_default"
proof -
  let ?P = "\<lambda>t. \<forall>x \<in> set (orders t). x \<in> set (orders s) \<or> o_status x = Some ''Completed''"
  have "?P (db (run e files s))"
  proof (rule run_preserves [where P = ?P])
    fix r :: "int \<times> int \<times> string option \<times> real \<times> string" and t :: store
    assume "case r of (oid, cid, d, t, st) \<Rightarrow> st = ''Completed''" "?P t"
    then show "?P (snd (sql_orders e r t))"
      using orders_sql_orders by (cases r) blast
  qed simp_all
  with assms show ?thesis by (auto simp: status_default_def)
qed

theorem pipeline_orders_completed_witness:
  "\<lparr>o_order_id = 1, o_customer_id = 1, o_order_date = ''2023-02-01'', o_total_amount = 5,
     o_status = Some ''Completed''\<rparr>
     \<in> set (orders (db (run sample_env dangling_files empty_store))) \<and>
   \<lparr>o_order_id = 1, o_customer_id = 1, o_order_date = ''2023-02-01'', o_total_amount = 5,
     o_status = Some ''Completed''\<rparr> \<notin> set (orders empty_store) \<and>
   o_status \<lparr>o_order_id = 1, o_customer_id = 1, o_order_date = ''2023-02-01'',
              o_total_amount = 5, o_status = Some ''Completed''\<rparr> = Some ''Completed'' \<and>
   o_status \<lparr>o_order_id = 1, o_customer_id = 1, o_order_date = ''2023-02-01'',
              o_total_amount = 5, o_status = Some ''Completed''\<rparr> \<noteq> Some status_default"
proof -
  let ?oo = "\<lparr>o_order_id = 1, o_customer_id = 1, o_order_date = ''2023-02-01'',
               o_total_amount = 5, o_status = Some ''Completed''\<rparr>"
  have a: "?oo \<in> set (orders (db (run sample_env dangling_files empty_store)))"
    by (simp add: run_dangling_files)
  have b: "?oo \<notin> set (orders empty_store)"
    by (simp add: empty_store_def)
  from a b pipeline_orders_completed [OF a b] show ?thesis by blast
qed

subsection \<open>Extraction\<close>

lemma assert_required_columns_None:
  "assert_required_columns cols required nm = None \<longleftrightarrow> set required \<subseteq> set cols"
  by (auto simp: assert_required_columns_def Let_def filter_empty_conv)

lemma assert_required_columns_Some:
  "assert_required_columns cols required nm = Some err
   \<Longrightarrow> err = ValueError (nm @ '': missing required columns'')"
  by (auto simp: assert_required_columns_def Let_def split: if_splits)

lemma extract_csv_missing:
  assumes "\<not> set customers_required \<subseteq> set (columns (customers_file files)) \<or>
           \<not> set products_required \<subseteq> set (columns (products_file files)) \<or>
           \<not> set sales_required \<subseteq> set (columns (sales_file files))"
  shows "\<exists>msg. extract_csv files = Some (ValueError msg)"
proof -
  let ?a = "assert_required_columns (columns (customers_file files)) customers_required ''customers_raw.csv''"
  let ?b = "assert_required_columns (columns (products_file files)) products_required ''products_raw.csv''"
  let ?c = "assert_required_columns (columns (sales_file files)) sales_required ''sales_raw.csv''"
  have abc: "?a \<noteq> None \<or> ?b \<noteq> None \<or> ?c \<noteq> None"
    using assms unfolding assert_required_columns_None by blast
  show ?thesis
  proof (cases ?a)
    case (Some err)
    then show ?thesis using assert_required_columns_Some [OF Some]
      by (simp add: extract_csv_def)
  next
    case None
    note a = None
    show ?thesis
    proof (cases ?b)
      case (Some err)
      then show ?thesis using a assert_required_columns_Some [OF Some]
        by (simp add: extract_csv_def)
    next
      case None
      with a abc obtain err where c: "?c = Some err" by blast
      then show ?thesis using a None assert_required_columns_Some [OF c]
        by (simp add: extract_csv_def)
    qed
  qed
qed

text \<open>
  C9. If a required column is missing from one of the three input files, the run ends
  with the ValueError of \<^verbatim>\<open>assert_required_columns\<close>, raised in \<^verbatim>\<open>extract\<close>: the
  connection to the store has not been opened and the store is as it was.
\<close>

theorem missing_column_aborts_before_load:
  assumes "\<not> set customers_required \<subseteq> set (columns (customers_file files)) \<or>
           \<not> set products_required \<subseteq> set (columns (products_file files)) \<or>
           \<not> set sales_required \<subseteq> set (columns (sales_file files))"
  shows "\<exists>msg. run e files s = \<lparr>failure = Some (ValueError msg), opened = False, db = s\<rparr>"
  using extract_csv_missing [OF assms] by (auto simp: run_def)

theorem missing_column_aborts_before_load_witness:
  "\<not> set customers_required \<subseteq> set (columns (customers_file headerless_files)) \<and>
   (\<exists>msg. run sample_env headerless_files empty_store =
           \<lparr>failure = Some (ValueError msg), opened = False, db = empty_store\<rparr>)"
proof -
  have h: "\<not> set customers_required \<subseteq> set (columns (customers_file headerless_files))"
    by (simp add: headerless_files_def customers_required_def)
  then have "\<not> set customers_required \<subseteq> set (columns (customers_file headerless_files)) \<or>
      \<not> set products_required \<subseteq> set (columns (products_file headerless_files)) \<or>
      \<not> set sales_required \<subseteq> set (columns (sales_file headerless_files))"
    by blast
  from h missing_column_aborts_before_load [OF this, of sample_env empty_store]
  show ?thesis by blast
qed

subsection \<open>Products\<close>











subsection \<open>Orders\<close>

lemma filter_eq_distinct: "distinct xs \<Longrightarrow> x \<in> set xs \<Longrightarrow> filter (\<lambda>k. k = x) xs = [x]"
  by (induction xs) (auto simp: filter_empty_conv)

lemma group_keys_distinct: "distinct (group_keys sales_df)"
  by (simp add: group_keys_def)

lemma group_keys_mem:
  "t \<in> set (group_keys sales_df) \<longleftrightarrow> (\<exists>r \<in> set sales_df. fs_transaction_id r = Some t)"
  by (auto simp: group_keys_def split: option.splits) (metis option.inject)+

lemma first_valid_Some_hd: "first_valid (map Some (x # xs)) = Some x"
  by simp

lemma first_valid_hd: "x \<noteq> None \<Longrightarrow> first_valid (x # xs) = x"
  by (cases x) simp_all

lemma build_orders_of_key:
  assumes "t \<in> set (group_keys sales_df)"
  shows "filter (\<lambda>oo. fo_order_id oo = t) (build_orders sales_df) =
           [\<lparr>fo_order_id = t,
             fo_customer_id = first_valid (map (\<lambda>r. Some (fs_customer_id r)) (group_of sales_df t)),
             fo_order_date = first_valid (map fs_transaction_date (group_of sales_df t)),
             fo_total_amount = sum_list (map fs_subtotal (group_of sales_df t))\<rparr>]"
proof -
  have "filter (\<lambda>oo. fo_order_id oo = t) (build_orders sales_df) =
          map (\<lambda>t. \<lparr>fo_order_id = t,
             fo_customer_id = first_valid (map (\<lambda>r. Some (fs_customer_id r)) (group_of sales_df t)),
             fo_order_date = first_valid (map fs_transaction_date (group_of sales_df t)),
             fo_total_amount = sum_list (map fs_subtotal (group_of sales_df t))\<rparr>)
            (filter (\<lambda>k. k = t) (group_keys sales_df))"
    by (simp add: build_orders_def Let_def filter_map comp_def)
  then show ?thesis
    using filter_eq_distinct [OF group_keys_distinct assms] by simp
qed

lemma build_orders_undated_first_sales:
  "build_orders undated_first_sales =
     [\<lparr>fo_order_id = 7, fo_customer_id = Some 3, fo_order_date = Some ''2023-03-02'',
       fo_total_amount = 10\<rparr>]"
  by code_simp

text \<open>
  C6, as the code has it. For every transaction id that a resolved sales line carries,
  exactly one order is built with that id; its customer id is that of the first line of
  the group, its total is the sum of the subtotals of the group, and its date is the
  first date of the group that is not missing, which is the date of the first line
  whenever that line has one.
\<close>

theorem one_order_per_transaction:
  assumes "r \<in> set sales_df" "fs_transaction_id r = Some t"
  shows "\<exists>first rest.
           filter (\<lambda>l. fs_transaction_id l = Some t) sales_df = first # rest \<and>
           filter (\<lambda>oo. fo_order_id oo = t) (build_orders sales_df) =
             [\<lparr>fo_order_id = t,
               fo_customer_id = Some (fs_customer_id first),
               fo_order_date = first_valid (map fs_transaction_date (first # rest)),
               fo_total_amount = sum_list (map fs_subtotal (first # rest))\<rparr>] \<and>
           (fs_transaction_date first \<noteq> None \<longrightarrow>
              first_valid (map fs_transaction_date (first # rest)) = fs_transaction_date first)"
proof -
  have "r \<in> set (group_of sales_df t)" using assms by (simp add: group_of_def)
  then obtain first rest where grp: "group_of sales_df t = first # rest"
    by (cases "group_of sales_df t") auto
  have key: "t \<in> set (group_keys sales_df)" using assms group_keys_mem by blast
  have "filter (\<lambda>oo. fo_order_id oo = t) (build_orders sales_df) =
          [\<lparr>fo_order_id = t,
            fo_customer_id = Some (fs_customer_id first),
            fo_order_date = first_valid (map fs_transaction_date (first # rest)),
            fo_total_amount = sum_list (map fs_subtotal (first # rest))\<rparr>]"
    unfolding build_orders_of_key [OF key] grp by simp
  moreover have "fs_transaction_date first \<noteq> None \<longrightarrow>
      first_valid (map fs_transaction_date (first # rest)) = fs_transaction_date first"
    by (simp add: first_valid_hd)
  ultimately show ?thesis using grp unfolding group_of_def by blast
qed

theorem one_order_per_transaction_witness:
  "hd undated_first_sales \<in> set undated_first_sales \<and>
   fs_transaction_id (hd undated_first_sales) = Some 7 \<and>
   (\<exists>first rest.
      filter (\<lambda>l. fs_transaction_id l = Some 7) undated_first_sales = first # rest \<and>
      filter (\<lambda>oo. fo_order_id oo = 7) (build_orders undated_first_sales) =
        [\<lparr>fo_order_id = 7,
          fo_customer_id = Some (fs_customer_id first),
          fo_order_date = first_valid (map fs_transaction_date (first # rest)),
          fo_total_amount = sum_list (map fs_subtotal (first # rest))\<rparr>] \<and>
      (fs_transaction_date first \<noteq> None \<longrightarrow>
         first_valid (map fs_transaction_date (first # rest)) = fs_transaction_date first))"
proof -
  have a: "hd undated_first_sales \<in> set undated_first_sales"
    by (simp add: undated_first_sales_def)
  have b: "fs_transaction_id (hd undated_first_sales) = Some 7"
    by (simp add: undated_first_sales_def)
  from a b one_order_per_transaction [OF a b] show ?thesis by blast
qed

text \<open>
  The claim as stated fails where the first line of a group has no date and a later line
  has one: the order takes the later date, not the missing date of the first line.
\<close>

theorem order_date_skips_missing_first_date:
  "map fo_order_date (build_orders undated_first_sales) = [Some ''2023-03-02''] \<and>
   map fs_transaction_id undated_first_sales = [Some 7, Some 7] \<and>
   map fs_transaction_date undated_first_sales = [None, Some ''2023-03-02'']"
  by (simp add: build_orders_undated_first_sales) (simp add: undated_first_sales_def)

subsection \<open>Customers\<close>

lemma filter_drop_seen:
  "filter (\<lambda>x. key x = a) (drop_seen key seen xs) =
     (if a \<in> set seen then [] else take 1 (filter (\<lambda>x. key x = a) xs))"
proof (induction xs arbitrary: seen)
  case Nil
  then show ?case by simp
next
  case (Cons x xs)
  then show ?case by auto
qed

lemma filter_drop_duplicates:
  "filter (\<lambda>x. key x = a) (drop_duplicates key xs) = take 1 (filter (\<lambda>x. key x = a) xs)"
  by (simp add: drop_duplicates_def filter_drop_seen)

lemma take1_filter_first:
  assumes "i < length xs" "P (xs ! i)"
  shows "\<exists>k \<le> i. P (xs ! k) \<and> (\<forall>m < k. \<not> P (xs ! m)) \<and> take 1 (filter P xs) = [xs ! k]"
  using assms
proof (induction xs arbitrary: i)
  case Nil
  then show ?case by simp
next
  case (Cons x xs)
  show ?case
  proof (cases "P x")
    case True
    then show ?thesis by (intro exI [of _ 0]) simp
  next
    case False
    with Cons.prems obtain i' where i': "i = Suc i'" by (cases i) auto
    with Cons.prems have "i' < length xs" "P (xs ! i')" by auto
    from Cons.IH [OF this] obtain k where
      k: "k \<le> i'" "P (xs ! k)" "\<forall>m < k. \<not> P (xs ! m)" "take 1 (filter P xs) = [xs ! k]"
      by blast
    have "\<forall>m < Suc k. \<not> P ((x # xs) ! m)"
      using False k(3) by (auto simp: less_Suc_eq_0_disj)
    with k i' False show ?thesis by (intro exI [of _ "Suc k"]) simp
  qed
qed

lemma clean_customers_length: "length (fst (clean_customers e n raw)) = length raw"
  by (induction raw arbitrary: n) (auto split: prod.splits, metis fst_conv)

lemma clean_customers_nth:
  "k < length raw \<Longrightarrow> \<exists>m. fst (clean_customers e n raw) ! k = fst (clean_customer e m (raw ! k))"
proof (induction raw arbitrary: n k)
  case Nil
  then show ?case by simp
next
  case (Cons r rs)
  obtain c n1 where c: "clean_customer e n r = (c, n1)" by (cases "clean_customer e n r")
  obtain cs n2 where cs: "clean_customers e n1 rs = (cs, n2)" by (cases "clean_customers e n1 rs")
  show ?case
  proof (cases k)
    case 0
    then show ?thesis using c cs by (intro exI [of _ n]) simp
  next
    case (Suc k')
    with Cons.prems have "k' < length rs" by simp
    from Cons.IH [OF this, of n1] obtain m where
      "fst (clean_customers e n1 rs) ! k' = fst (clean_customer e m (rs ! k'))" by blast
    then show ?thesis using c cs Suc by (intro exI [of _ m]) simp
  qed
qed

lemma clean_customer_email:
  "canonicalize_email (rc_email r) = Some a \<Longrightarrow> fc_email (fst (clean_customer e m r)) = a"
  by (simp add: clean_customer_def Let_def)

lemma transform_customers_fst:
  "fst (transform_customers e n raw) = drop_duplicates fc_email (fst (clean_customers e n raw))"
  by (simp add: transform_customers_def split: prod.splits)

lemma dedup_keeps_first:
  assumes "i < length raw" "canonicalize_email (rc_email (raw ! i)) = Some a"
  shows "\<exists>k m. k \<le> i \<and>
           fc_email (fst (clean_customer e m (raw ! k))) = a \<and>
           (\<forall>l < k. fc_email (fst (clean_customers e n raw) ! l) \<noteq> a) \<and>
           fst (clean_customers e n raw) ! k = fst (clean_customer e m (raw ! k)) \<and>
           filter (\<lambda>x. fc_email x = a) (fst (transform_customers e n raw)) =
             [fst (clean_customer e m (raw ! k))]"
proof -
  let ?cs = "fst (clean_customers e n raw)"
  have len: "i < length ?cs" using assms(1) by (simp add: clean_customers_length)
  obtain m0 where "?cs ! i = fst (clean_customer e m0 (raw ! i))"
    using clean_customers_nth [OF assms(1)] by blast
  then have "fc_email (?cs ! i) = a" using clean_customer_email [OF assms(2)] by simp
  from take1_filter_first [where P = "\<lambda>x. fc_email x = a", OF len this] obtain k where
    k: "k \<le> i" "fc_email (?cs ! k) = a" "\<forall>l < k. fc_email (?cs ! l) \<noteq> a"
       "take 1 (filter (\<lambda>x. fc_email x = a) ?cs) = [?cs ! k]"
    by blast
  have "k < length raw" using k(1) assms(1) by simp
  then obtain m where m: "?cs ! k = fst (clean_customer e m (raw ! k))"
    using clean_customers_nth by blast
  show ?thesis
    using k m by (intro exI [of _ k] exI [of _ m])
      (simp add: transform_customers_fst filter_drop_duplicates)
qed


lemma put_customer_emails:
  assumes "put_customer e r s = (None, s')"
  shows "c_email ` set (customers s') = insert (c_email r) (c_email ` set (customers s))"
  using assms by (auto simp: put_customer_def split: if_splits)

lemma put_customer_filter:
  assumes "put_customer e r s = (None, s')"
  shows "filter (\<lambda>x. c_email x = a) (customers s') =
           (if c_email r = a \<and> a \<notin> c_email ` set (customers s) then [r]
            else filter (\<lambda>x. c_email x = a) (customers s))"
proof (cases "c_email r \<in> c_email ` set (customers s)")
  case True
  then have "s' = s" using assms by (auto simp: put_customer_def split: if_splits)
  then show ?thesis using True by auto
next
  case False
  then have s': "customers s' = customers s @ [r]"
    using assms by (auto simp: put_customer_def split: if_splits)
  show ?thesis
  proof (cases "c_email r = a")
    case True
    then have "filter (\<lambda>x. c_email x = a) (customers s) = []"
      using False by (auto simp: filter_empty_conv) (metis image_eqI)
    then show ?thesis using True False s' by simp
  next
    case ne: False
    then show ?thesis using s' by simp
  qed
qed

lemma batch_put_filter:
  assumes stmt: "\<And>r s. \<exists>rec s0. stmt r s = put_customer e rec s0 \<and>
                   customers s0 = customers s \<and> c_email rec = em r \<and> Q r rec"
  shows "execute_batch stmt rws s = (None, s') \<Longrightarrow>
         (if a \<in> c_email ` set (customers s)
          then filter (\<lambda>x. c_email x = a) (customers s') = filter (\<lambda>x. c_email x = a) (customers s)
          else (case filter (\<lambda>r. em r = a) rws of
                  [] \<Rightarrow> filter (\<lambda>x. c_email x = a) (customers s') = [] \<and>
                        a \<notin> c_email ` set (customers s')
                | r # _ \<Rightarrow> \<exists>rec. Q r rec \<and> filter (\<lambda>x. c_email x = a) (customers s') = [rec]))"
proof (induction rws arbitrary: s)
  case Nil
  then show ?case by (auto simp: filter_empty_conv)
next
  case (Cons r rws)
  from stmt [of r s] obtain rec s0 where
    st: "stmt r s = put_customer e rec s0" and c0: "customers s0 = customers s"
    and em: "c_email rec = em r" and q: "Q r rec" by blast
  obtain err s1 where p: "put_customer e rec s0 = (err, s1)" by (cases "put_customer e rec s0")
  with Cons.prems st have err: "err = None" and rest: "execute_batch stmt rws s1 = (None, s')"
    by (cases err; simp)+
  have p': "put_customer e rec s0 = (None, s1)" using p err by simp
  have f: "filter (\<lambda>x. c_email x = a) (customers s1) =
           (if c_email rec = a \<and> a \<notin> c_email ` set (customers s) then [rec]
            else filter (\<lambda>x. c_email x = a) (customers s))"
      "c_email ` set (customers s1) = insert (c_email rec) (c_email ` set (customers s))"
    using put_customer_filter [OF p', of a] put_customer_emails [OF p'] c0 by simp_all
  note ih = Cons.IH [OF rest]
  show ?case
  proof (cases "a \<in> c_email ` set (customers s)")
    case True
    then have "a \<in> c_email ` set (customers s1)" using f(2) by blast
    with ih True f(1) show ?thesis by simp
  next
    case False
    show ?thesis
    proof (cases "em r = a")
      case True
      then have "a \<in> c_email ` set (customers s1)" using f(2) em by simp
      with ih have "filter (\<lambda>x. c_email x = a) (customers s') = [rec]"
        using f(1) em True False by simp
      with False True q show ?thesis by auto
    next
      case ne: False
      then have "a \<notin> c_email ` set (customers s1)" using f(2) em False by auto
      with ih False ne show ?thesis by simp
    qed
  qed
qed

lemma sql_customers_with_put:
  "\<exists>rec s0. sql_customers_with e r s = put_customer e rec s0 \<and> customers s0 = customers s \<and>
     c_email rec = fst (snd (snd (snd r))) \<and> rec = customer_rec (fst r) (snd r)"
  by (cases r) (auto simp: sql_customers_with_def customer_rec_def)

lemma sql_customers_without_put:
  "\<exists>rec s0. sql_customers_without e v s = put_customer e rec s0 \<and> customers s0 = customers s \<and>
     c_email rec = fst (snd (snd v)) \<and> (\<exists>cid. rec = customer_rec cid v)"
proof -
  obtain a b c d f g where v: "v = (a, b, c, d, f, g)" by (cases v)
  show ?thesis
    by (intro exI [of _ "customer_rec (customers_seq s + 1) v"]
          exI [of _ "s\<lparr>customers_seq := customers_seq s + 1\<rparr>"])
       (auto simp: sql_customers_without_def customer_rec_def Let_def v)
qed


lemma email_of_customer_values [simp]: "fst (snd (snd (customer_values_of r))) = fc_email r"
  by (simp add: customer_values_of_def)

lemma filter_rows_with:
  "filter (\<lambda>rw. fst (snd (snd (snd rw))) = a)
     (concat (map (\<lambda>r. case fc_customer_id r of
                          Some cid \<Rightarrow> [(cid, customer_values_of r)] | None \<Rightarrow> [])
                (filter (\<lambda>r. fc_customer_id r \<noteq> None) df))) =
   concat (map (\<lambda>r. case fc_customer_id r of
                       Some cid \<Rightarrow> [(cid, customer_values_of r)] | None \<Rightarrow> [])
             (filter (\<lambda>x. fc_email x = a) df))"
  by (induction df) (auto split: option.splits)

lemma filter_rows_without:
  "filter (\<lambda>v. fst (snd (snd v)) = a)
     (map customer_values_of (filter (\<lambda>r. fc_customer_id r = None) df)) =
   map customer_values_of
     (filter (\<lambda>r. fc_customer_id r = None) (filter (\<lambda>x. fc_email x = a) df))"
  by (induction df) auto

lemma commit_None: "commit s res = (None, s') \<Longrightarrow> res = (None, s')"
  by (cases res) (auto simp: commit_def split: option.splits)

lemma upsert_customers_persists:
  assumes H: "filter (\<lambda>x. fc_email x = a) df = [c]"
  assumes new: "a \<notin> c_email ` set (customers s)"
  assumes ok: "upsert_customers e df s = (None, s')"
  shows "\<exists>cid. filter (\<lambda>x. c_email x = a) (customers s') =
                 [customer_rec cid (customer_values_of c)] \<and>
               (\<forall>x. fc_customer_id c = Some x \<longrightarrow> cid = x)"
proof -
  let ?rw = "concat (map (\<lambda>r. case fc_customer_id r of
                               Some cid \<Rightarrow> [(cid, customer_values_of r)] | None \<Rightarrow> [])
                      (filter (\<lambda>r. fc_customer_id r \<noteq> None) df))"
  let ?rwo = "map customer_values_of (filter (\<lambda>r. fc_customer_id r = None) df)"
  let ?P = "\<lambda>x. c_email x = a"
  have inner: "(case execute_batch (sql_customers_with e) ?rw s of
                  (Some err, w) \<Rightarrow> (Some err, w)
                | (None, w) \<Rightarrow> execute_batch (sql_customers_without e) ?rwo w) = (None, s')"
    using commit_None [OF ok [unfolded upsert_customers_def Let_def]] .
  obtain err w where b1: "execute_batch (sql_customers_with e) ?rw s = (err, w)"
    by (cases "execute_batch (sql_customers_with e) ?rw s")
  with inner have err: "err = None"
    and b2: "execute_batch (sql_customers_without e) ?rwo w = (None, s')"
    by (cases err; simp)+
  have b1': "execute_batch (sql_customers_with e) ?rw s = (None, w)" using b1 err by simp
  have fw: "filter (\<lambda>rw. fst (snd (snd (snd rw))) = a) ?rw =
              (case fc_customer_id c of Some i \<Rightarrow> [(i, customer_values_of c)] | None \<Rightarrow> [])"
    unfolding filter_rows_with H by (simp split: option.splits)
  have fwo: "filter (\<lambda>v. fst (snd (snd v)) = a) ?rwo =
              (case fc_customer_id c of Some i \<Rightarrow> [] | None \<Rightarrow> [customer_values_of c])"
    unfolding filter_rows_without H by (simp split: option.splits)
  note one = batch_put_filter [where stmt = "sql_customers_with e" and e = e
      and em = "\<lambda>r. fst (snd (snd (snd r)))" and Q = "\<lambda>r rec. rec = customer_rec (fst r) (snd r)"
      and a = a, OF sql_customers_with_put b1']
  note two = batch_put_filter [where stmt = "sql_customers_without e" and e = e
      and em = "\<lambda>v. fst (snd (snd v))" and Q = "\<lambda>v rec. \<exists>cid. rec = customer_rec cid v"
      and a = a, OF sql_customers_without_put b2]
  show ?thesis
  proof (cases "fc_customer_id c")
    case (Some i)
    from one new fw Some have w: "filter ?P (customers w) = [customer_rec i (customer_values_of c)]"
      by simp
    then have "customer_rec i (customer_values_of c) \<in> set (filter ?P (customers w))" by simp
    then have "a \<in> c_email ` set (customers w)" by force
    with two w have "filter ?P (customers s') = [customer_rec i (customer_values_of c)]"
      by simp
    with Some show ?thesis by simp
  next
    case None
    from one new fw None have w: "a \<notin> c_email ` set (customers w)" by simp
    with two fwo None show ?thesis by auto
  qed
qed


lemma canonical_duplicate_customers:
  "canonicalize_email (rc_email (duplicate_customers ! 0)) = Some ''ann@x.com'' \<and>
   canonicalize_email (rc_email (duplicate_customers ! 1)) = Some ''ann@x.com''"
  by code_simp

text \<open>
  C7. Customers are deduplicated by canonical email, the first occurrence in arrival order
  stays. Of two rows with the same canonical email, exactly one row with that email is
  left after the transform: the first row of the file that has this email after the
  cleaning (the earlier of the two rows, unless a row before it has the email already).
  When the store does not know the email and the upsert succeeds, exactly one customer of
  the store has the email, with the values of that row and with its id if it has one.
\<close>

theorem dedup_keeps_first_customer:
  assumes "i < j" "j < length raw"
    and "canonicalize_email (rc_email (raw ! i)) = Some a"
    and "canonicalize_email (rc_email (raw ! j)) = Some a"
  shows "\<exists>k m. k \<le> i \<and>
           (\<forall>l < k. fc_email (fst (clean_customers e n raw) ! l) \<noteq> a) \<and>
           ((\<forall>l < i. fc_email (fst (clean_customers e n raw) ! l) \<noteq> a) \<longrightarrow> k = i) \<and>
           fc_email (fst (clean_customer e m (raw ! k))) = a \<and>
           filter (\<lambda>x. fc_email x = a) (fst (transform_customers e n raw)) =
             [fst (clean_customer e m (raw ! k))] \<and>
           (\<forall>s s'. a \<notin> c_email ` set (customers s) \<and>
                   upsert_customers e (fst (transform_customers e n raw)) s = (None, s') \<longrightarrow>
              (\<exists>cid. filter (\<lambda>x. c_email x = a) (customers s') =
                       [customer_rec cid (customer_values_of (fst (clean_customer e m (raw ! k))))] \<and>
                     (\<forall>x. fc_customer_id (fst (clean_customer e m (raw ! k))) = Some x
                          \<longrightarrow> cid = x)))"
proof -
  have i: "i < length raw" using assms(1,2) by simp
  from dedup_keeps_first [OF i assms(3), of e n] obtain k m where
    k: "k \<le> i" "fc_email (fst (clean_customer e m (raw ! k))) = a"
       "\<forall>l < k. fc_email (fst (clean_customers e n raw) ! l) \<noteq> a"
       "fst (clean_customers e n raw) ! k = fst (clean_customer e m (raw ! k))"
       "filter (\<lambda>x. fc_email x = a) (fst (transform_customers e n raw)) =
          [fst (clean_customer e m (raw ! k))]"
    by blast
  have first: "(\<forall>l < i. fc_email (fst (clean_customers e n raw) ! l) \<noteq> a) \<longrightarrow> k = i"
    using k(1,2,4) by (metis le_neq_implies_less)
  have persist: "\<exists>cid. filter (\<lambda>x. c_email x = a) (customers s') =
                       [customer_rec cid (customer_values_of (fst (clean_customer e m (raw ! k))))] \<and>
                     (\<forall>x. fc_customer_id (fst (clean_customer e m (raw ! k))) = Some x
                          \<longrightarrow> cid = x)"
    if "a \<notin> c_email ` set (customers s)"
      "upsert_customers e (fst (transform_customers e n raw)) s = (None, s')" for s s'
    using upsert_customers_persists [OF k(5) that] .
  show ?thesis
    using k(1,2,3,5) first persist by (intro exI [of _ k] exI [of _ m]) blast
qed

theorem dedup_keeps_first_customer_witness:
  "(0::nat) < 1 \<and> 1 < length duplicate_customers \<and>
   canonicalize_email (rc_email (duplicate_customers ! 0)) = Some ''ann@x.com'' \<and>
   canonicalize_email (rc_email (duplicate_customers ! 1)) = Some ''ann@x.com'' \<and>
   (\<exists>k m. k \<le> 0 \<and>
           (\<forall>l < k. fc_email (fst (clean_customers sample_env 1 duplicate_customers) ! l) \<noteq> ''ann@x.com'') \<and>
           ((\<forall>l < (0::nat). fc_email (fst (clean_customers sample_env 1 duplicate_customers) ! l) \<noteq> ''ann@x.com'') \<longrightarrow> k = 0) \<and>
           fc_email (fst (clean_customer sample_env m (duplicate_customers ! k))) = ''ann@x.com'' \<and>
           filter (\<lambda>x. fc_email x = ''ann@x.com'') (fst (transform_customers sample_env 1 duplicate_customers)) =
             [fst (clean_customer sample_env m (duplicate_customers ! k))] \<and>
           (\<forall>s s'. ''ann@x.com'' \<notin> c_email ` set (customers s) \<and>
                   upsert_customers sample_env (fst (transform_customers sample_env 1 duplicate_customers)) s = (None, s') \<longrightarrow>
              (\<exists>cid. filter (\<lambda>x. c_email x = ''ann@x.com'') (customers s') =
                       [customer_rec cid (customer_values_of (fst (clean_customer sample_env m (duplicate_customers ! k))))] \<and>
                     (\<forall>x. fc_customer_id (fst (clean_customer sample_env m (duplicate_customers ! k))) = Some x
                          \<longrightarrow> cid = x))))"
proof -
  have a: "(0::nat) < 1" by simp
  have b: "1 < length duplicate_customers" by (simp add: duplicate_customers_def)
  note c = canonical_duplicate_customers [THEN conjunct1]
  note d = canonical_duplicate_customers [THEN conjunct2]
  from a b c d dedup_keeps_first_customer [OF a b c d, of sample_env 1]
  show ?thesis by blast
qed

subsection \<open>Identity resolution\<close>




lemma assign_stub_emails_backward:
  "assign_stub_emails e n df = (df', stubs, n') \<Longrightarrow> x \<in> set df' \<Longrightarrow>
     \<exists>r \<in> set df. (fs_email r \<noteq> None \<and> x = r) \<or>
                   (fs_email r = None \<and> (\<exists>p \<in> set stubs. x = r\<lparr>fs_email := Some p\<rparr>))"
proof (induction df arbitrary: n df' stubs n')
  case Nil
  then show ?case by simp
next
  case (Cons a df)
  show ?case
  proof (cases "fs_email a")
    case None
    obtain x1 x1a c where rec: "assign_stub_emails e (Suc n) df = (x1, x1a, c)"
      by (cases "assign_stub_emails e (Suc n) df")
    let ?p = "placeholder_email (take 8 (uuid4_hex e n))"
    from Cons.prems(1) None rec have eqs: "df' = a\<lparr>fs_email := Some ?p\<rparr> # x1" "stubs = ?p # x1a"
      by (auto simp: Let_def)
    show ?thesis
    proof (cases "x = a\<lparr>fs_email := Some ?p\<rparr>")
      case True
      have "fs_email a = None \<and> (\<exists>p \<in> set stubs. x = a\<lparr>fs_email := Some p\<rparr>)"
        using True None eqs by auto
      then show ?thesis by (intro bexI [of _ a]) simp_all
    next
      case False
      with Cons.prems(2) eqs have "x \<in> set x1" by simp
      from Cons.IH [OF rec this] obtain r where r: "r \<in> set df"
        "(fs_email r \<noteq> None \<and> x = r) \<or>
         (fs_email r = None \<and> (\<exists>p \<in> set x1a. x = r\<lparr>fs_email := Some p\<rparr>))" by auto
      have "(fs_email r \<noteq> None \<and> x = r) \<or>
         (fs_email r = None \<and> (\<exists>p \<in> set stubs. x = r\<lparr>fs_email := Some p\<rparr>))"
        using r(2) eqs(2) by auto
      then show ?thesis using r(1) by (intro bexI [of _ r]) simp_all
    qed
  next
    case (Some em)
    obtain x1 x1a c where rec: "assign_stub_emails e n df = (x1, x1a, c)"
      by (cases "assign_stub_emails e n df")
    from Cons.prems(1) Some rec have eqs: "df' = a # x1" "stubs = x1a" by auto
    show ?thesis
    proof (cases "x = a")
      case True
      then show ?thesis using Some by (intro bexI [of _ a]) simp_all
    next
      case False
      with Cons.prems(2) eqs have "x \<in> set x1" by simp
      from Cons.IH [OF rec this] obtain r where r: "r \<in> set df"
        "(fs_email r \<noteq> None \<and> x = r) \<or>
         (fs_email r = None \<and> (\<exists>p \<in> set x1a. x = r\<lparr>fs_email := Some p\<rparr>))" by auto
      then show ?thesis using eqs(2) by (intro bexI [of _ r]) simp_all
    qed
  qed
qed


lemma assign_stub_emails_present:
  "assign_stub_emails e n df = (df', stubs, n') \<Longrightarrow> x \<in> set df' \<Longrightarrow> fs_email x \<noteq> None"
  using assign_stub_emails_backward [of e n df df' stubs n' x] by auto



lemma set_iteration_set [simp]: "set (set_iteration e xs) = set xs"
  by (simp add: set_iteration_def)


lemma rollback_tables [simp]:
  "customers (rollback s w) = customers s" "products (rollback s w) = products s"
  "orders (rollback s w) = orders s" "order_items (rollback s w) = order_items s"
  by (simp_all add: rollback_def)




lemma fetch_known_email:
  assumes "c \<in> set (customers s)" "canonicalize_email (Some (c_email c)) = Some em"
  shows "\<exists>cid. fetch_customer_id_by_email s (Some em) = Some cid"
proof -
  have "Some em \<in> fst ` set (rev (map (\<lambda>r. (canonicalize_email (Some (c_email r)), c_customer_id r))
                                  (customers s)))"
    using assms by force
  then show ?thesis
    unfolding fetch_customer_id_by_email_def
    by (metis map_of_eq_None_iff not_Some_eq)
qed










subsection \<open>Dangling sales lines\<close>




lemma dropna_ids_key: "sales_dup_key r' = sales_dup_key r \<Longrightarrow> dropna_ids r' = dropna_ids r"
  by (simp add: sales_dup_key_def dropna_ids_def)



















end
